theory Spec2Isabelle
  imports Complex_Main
begin

section \<open>Data model\<close>

text \<open>
  Bounding boxes are 4-tuples of Python ints \<open>(x1, y1, x2, y2)\<close>. Python floats are
  modelled as exact reals (no rounding, no infinities, no NaN).
\<close>

type_synonym bbox = "int \<times> int \<times> int \<times> int"

text \<open>
  A detection is the dictionary built in \<open>PeopleDetector.detect\<close>. The tracker reads
  \<open>det["bbox"]\<close> and \<open>det["center"]\<close> by key and \<open>det.get("conf", None)\<close>, so the
  confidence alone is optional.
\<close>

record detection =
  det_bbox :: bbox
  det_conf :: "real option"
  det_class :: string
  det_center :: "int \<times> int"

text \<open>One element of \<open>results[0].boxes\<close> as \<open>detect\<close> reads it.\<close>

record yolo_box =
  box_cls :: real
  box_xyxy :: "real \<times> real \<times> real \<times> real"
  box_conf :: real

subsection \<open>The Kalman filter object\<close>

text \<open>
  \<open>filterpy.kalman.KalmanFilter\<close> is a third-party object: the tracker only constructs
  it, calls \<open>predict()\<close> and \<open>update(z)\<close> inside \<open>try\<close> blocks and reads \<open>x[0], x[1]\<close>.
  The filter is therefore a parameter of the model. A call either returns or raises,
  and in both cases leaves a filter state behind (a call that raises may already have
  mutated the object).
\<close>

datatype 'k outcome = Returned 'k | Raised 'k

record 'k kalman =
  kf_init :: "real \<times> real \<Rightarrow> 'k"
  kf_predict :: "'k \<Rightarrow> 'k outcome"
  kf_update :: "'k \<Rightarrow> real \<times> real \<Rightarrow> 'k outcome"
  kf_x :: "'k \<Rightarrow> real \<times> real"

text \<open>
  \<open>Track\<close>: \<open>missed_frames\<close> and \<open>hits\<close> start at 0 and 1 and are only ever incremented
  or reset, so they are naturals; the id is a Python int.
\<close>

record 'k track =
  tr_id :: int
  tr_kf :: 'k
  tr_bbox :: bbox
  missed_frames :: nat
  hits :: nat

text \<open>What \<open>logging.exception\<close> records: which call failed, for which track id.\<close>

datatype diag = PredictFailed int | UpdateFailed int

record 'k tracker =
  tracks :: "'k track list"
  max_distance :: real
  max_missed :: int

text \<open>One dictionary of the list returned by \<open>PeopleTracker.update\<close>.\<close>

record result =
  res_id :: int
  res_bbox :: bbox
  res_conf :: "real option"
  res_class :: string

section \<open>detector.py\<close>

text \<open>Python's \<open>int(x)\<close> on a float truncates toward zero.\<close>

definition py_int :: "real \<Rightarrow> int" where
  "py_int x = (if 0 \<le> x then \<lfloor>x\<rfloor> else \<lceil>x\<rceil>)"

text \<open>The \<open>"center"\<close> entry: \<open>((x1 + x2) // 2, (y1 + y2) // 2)\<close>; \<open>//\<close> is floor division,
  which is \<open>div\<close> on \<open>int\<close>.\<close>

definition box_center :: "bbox \<Rightarrow> int \<times> int" where
  "box_center b = (case b of (x1, y1, x2, y2) \<Rightarrow> ((x1 + x2) div 2, (y1 + y2) div 2))"

definition parse_box :: "yolo_box \<Rightarrow> detection" where
  "parse_box box =
     (case box_xyxy box of (a, b, c, d) \<Rightarrow>
        let x1 = py_int a; y1 = py_int b; x2 = py_int c; y2 = py_int d
        in \<lparr>det_bbox = (x1, y1, x2, y2), det_conf = Some (box_conf box),
            det_class = ''person'', det_center = box_center (x1, y1, x2, y2)\<rparr>)"

fun detect :: "yolo_box list \<Rightarrow> detection list" where
  "detect [] = []"
| "detect (box # boxes) =
     (if py_int (box_cls box) \<noteq> 0 then detect boxes else parse_box box # detect boxes)"

section \<open>tracker.py: Track\<close>

text \<open>\<open>cx = (x1 + x2) / 2.0; cy = (y1 + y2) / 2.0\<close>, in \<open>__init__\<close> and in \<open>update\<close>.\<close>

definition measured_centroid :: "bbox \<Rightarrow> real \<times> real" where
  "measured_centroid b =
     (case b of (x1, y1, x2, y2) \<Rightarrow> (real_of_int (x1 + x2) / 2, real_of_int (y1 + y2) / 2))"

definition Track :: "'k kalman \<Rightarrow> bbox \<Rightarrow> int \<Rightarrow> 'k track" where
  "Track f b track_id =
     \<lparr>tr_id = track_id, tr_kf = kf_init f (measured_centroid b), tr_bbox = b,
      missed_frames = 0, hits = 1\<rparr>"

definition track_predict :: "'k kalman \<Rightarrow> 'k track \<Rightarrow> 'k track \<times> diag list" where
  "track_predict f tr =
     (case kf_predict f (tr_kf tr) of
        Returned k \<Rightarrow> (tr\<lparr>tr_kf := k\<rparr>, [])
      | Raised k \<Rightarrow> (tr\<lparr>tr_kf := k\<rparr>, [PredictFailed (tr_id tr)]))"

definition track_update :: "'k kalman \<Rightarrow> 'k track \<Rightarrow> bbox \<Rightarrow> 'k track \<times> diag list" where
  "track_update f tr b =
     (case kf_update f (tr_kf tr) (measured_centroid b) of
        Returned k \<Rightarrow>
          (tr\<lparr>tr_kf := k, tr_bbox := b, missed_frames := 0, hits := hits tr + 1\<rparr>, [])
      | Raised k \<Rightarrow> (tr\<lparr>tr_kf := k\<rparr>, [UpdateFailed (tr_id tr)]))"

section \<open>tracker.py: PeopleTracker\<close>

text \<open>
  \<open>__init__\<close> builds the instance and resets the module-level \<open>_TRACK_ID\<close> to 1.
  The global is threaded explicitly: a call takes its value and returns the new one.
\<close>

definition PeopleTracker :: "real \<Rightarrow> int \<Rightarrow> int \<times> 'k tracker" where
  "PeopleTracker md mm = (1, \<lparr>tracks = [], max_distance = md, max_missed = mm\<rparr>)"

text \<open>\<open>math.hypot(a[0] - b[0], a[1] - b[1])\<close>\<close>

definition distance :: "real \<times> real \<Rightarrow> real \<times> real \<Rightarrow> real" where
  "distance a b = sqrt ((fst a - fst b)\<^sup>2 + (snd a - snd b)\<^sup>2)"

definition center_point :: "int \<times> int \<Rightarrow> real \<times> real" where
  "center_point dc = (real_of_int (fst dc), real_of_int (snd dc))"

text \<open>Step 1: \<open>for tr in self.tracks: tr.predict()\<close>.\<close>

fun predict_all :: "'k kalman \<Rightarrow> 'k track list \<Rightarrow> 'k track list \<times> diag list" where
  "predict_all f [] = ([], [])"
| "predict_all f (tr # trs) =
     (case track_predict f tr of (tr', lg) \<Rightarrow>
        case predict_all f trs of (trs', lgs) \<Rightarrow> (tr' # trs', lg @ lgs))"

text \<open>
  The inner loop over \<open>enumerate(det_centers)\<close>. The pair \<open>(best_d, best_di)\<close> starts as
  \<open>(inf, None)\<close> and both are assigned together, so it is \<open>None\<close> until the first
  assignment and \<open>Some (best_d, best_di)\<close> afterwards; \<open>d < inf\<close> holds for every \<open>d\<close>.
\<close>

fun best_detection ::
  "real \<times> real \<Rightarrow> nat set \<Rightarrow> (nat \<times> (int \<times> int)) list \<Rightarrow> (real \<times> nat) option
     \<Rightarrow> (real \<times> nat) option" where
  "best_detection tr_center matched_det_idx [] best = best"
| "best_detection tr_center matched_det_idx ((di, dc) # rest) best =
     (if di \<in> matched_det_idx then best_detection tr_center matched_det_idx rest best
      else
        let d = distance tr_center (center_point dc) in
        if (case best of None \<Rightarrow> True | Some (best_d, best_di) \<Rightarrow> d < best_d)
        then best_detection tr_center matched_det_idx rest (Some (d, di))
        else best_detection tr_center matched_det_idx rest best)"

text \<open>
  Step 3, the loop over \<open>enumerate(self.tracks)\<close>. The loop state is the two index sets;
  the tracks are mutated in place, so the loop returns them in their order.
\<close>

fun associate ::
  "'k kalman \<Rightarrow> real \<Rightarrow> detection list \<Rightarrow> (nat \<times> 'k track) list \<Rightarrow> nat set \<Rightarrow> nat set
     \<Rightarrow> 'k track list \<times> nat set \<times> nat set \<times> diag list" where
  "associate f md dets [] matched_det_idx matched_tr_idx =
     ([], matched_det_idx, matched_tr_idx, [])"
| "associate f md dets ((ti, tr) # rest) matched_det_idx matched_tr_idx =
     (case best_detection (kf_x f (tr_kf tr)) matched_det_idx
             (enumerate 0 (map det_center dets)) None of
        None \<Rightarrow>
          (case associate f md dets rest matched_det_idx matched_tr_idx of
             (trs, mdi, mti, lgs) \<Rightarrow>
               (tr\<lparr>missed_frames := missed_frames tr + 1\<rparr> # trs, mdi, mti, lgs))
      | Some (best_d, best_di) \<Rightarrow>
          if best_d \<le> md then
            (case track_update f tr (map det_bbox dets ! best_di) of (tr', lg) \<Rightarrow>
               case associate f md dets rest (insert best_di matched_det_idx)
                      (insert ti matched_tr_idx) of
                 (trs, mdi, mti, lgs) \<Rightarrow> (tr' # trs, mdi, mti, lg @ lgs))
          else
            (case associate f md dets rest matched_det_idx matched_tr_idx of
               (trs, mdi, mti, lgs) \<Rightarrow>
                 (tr\<lparr>missed_frames := missed_frames tr + 1\<rparr> # trs, mdi, mti, lgs)))"

text \<open>Step 4: a new track for every detection whose index was not claimed.\<close>

fun spawn ::
  "'k kalman \<Rightarrow> nat set \<Rightarrow> (nat \<times> detection) list \<Rightarrow> int \<Rightarrow> int \<times> 'k track list" where
  "spawn f matched_det_idx [] TRACK_ID = (TRACK_ID, [])"
| "spawn f matched_det_idx ((di, det) # rest) TRACK_ID =
     (if di \<in> matched_det_idx then spawn f matched_det_idx rest TRACK_ID
      else
        case spawn f matched_det_idx rest (TRACK_ID + 1) of
          (TRACK_ID', new) \<Rightarrow> (TRACK_ID', Track f (det_bbox det) TRACK_ID # new))"

text \<open>Step 5: \<open>[t for t in self.tracks if t.missed_frames <= self.max_missed]\<close>.\<close>

definition alive :: "int \<Rightarrow> 'k track \<Rightarrow> bool" where
  "alive mm t \<longleftrightarrow> int (missed_frames t) \<le> mm"

definition prune :: "int \<Rightarrow> 'k track list \<Rightarrow> 'k track list" where
  "prune mm trs = filter (alive mm) trs"

text \<open>Step 6: one record per surviving track, then the scan that attaches confidences.\<close>

definition to_result :: "'k track \<Rightarrow> result" where
  "to_result tr = \<lparr>res_id = tr_id tr, res_bbox = tr_bbox tr, res_conf = None,
                    res_class = ''person''\<rparr>"

definition attach_one :: "detection \<Rightarrow> result list \<Rightarrow> result list" where
  "attach_one det results =
     map (\<lambda>res. if res_bbox res = det_bbox det then res\<lparr>res_conf := det_conf det\<rparr> else res)
       results"

fun attach_conf :: "detection list \<Rightarrow> result list \<Rightarrow> result list" where
  "attach_conf [] results = results"
| "attach_conf (det # dets) results = attach_conf dets (attach_one det results)"

text \<open>
  The stages of \<open>PeopleTracker.update\<close> up to the pruning: the old tracks after
  prediction and association (in their order), the index sets, and the diagnostics.
\<close>

definition processed ::
  "'k kalman \<Rightarrow> 'k tracker \<Rightarrow> detection list \<Rightarrow> 'k track list \<times> nat set \<times> nat set \<times> diag list"
  where
  "processed f s dets =
     (case predict_all f (tracks s) of (trs1, lg1) \<Rightarrow>
        case associate f (max_distance s) dets (enumerate 0 trs1) {} {} of
          (trs2, mdi, mti, lg2) \<Rightarrow> (trs2, mdi, mti, lg1 @ lg2))"

text \<open>
  \<open>PeopleTracker.update\<close>: takes the global \<open>_TRACK_ID\<close> and the instance, returns the
  new global, the instance, the result list and the diagnostics logged.
\<close>

definition update ::
  "'k kalman \<Rightarrow> int \<Rightarrow> 'k tracker \<Rightarrow> detection list
     \<Rightarrow> int \<times> 'k tracker \<times> result list \<times> diag list" where
  "update f TRACK_ID s dets =
     (case processed f s dets of (trs2, mdi, mti, lg) \<Rightarrow>
        case spawn f mdi (enumerate 0 dets) TRACK_ID of (TRACK_ID', new) \<Rightarrow>
          let kept = prune (max_missed s) (trs2 @ new) in
          (TRACK_ID', s\<lparr>tracks := kept\<rparr>, attach_conf dets (map to_result kept), lg))"

text \<open>The tracks that step 4 of this call creates, before the pruning.\<close>

definition created :: "'k kalman \<Rightarrow> int \<Rightarrow> 'k tracker \<Rightarrow> detection list \<Rightarrow> 'k track list" where
  "created f TRACK_ID s dets =
     (case processed f s dets of (trs2, mdi, mti, lg) \<Rightarrow>
        snd (spawn f mdi (enumerate 0 dets) TRACK_ID))"

section \<open>A run of events on the module\<close>

text \<open>
  The module holds one global \<open>_TRACK_ID\<close> (1 when the module is imported) and any
  number of \<open>PeopleTracker\<close> instances, numbered in the order of their construction.
  A step also reports the ids given to the tracks it created.
\<close>

record 'k world =
  TRACK_ID :: int
  instances :: "'k tracker list"

datatype event = Construct real int | Update nat "detection list"

definition module_loaded :: "'k world" where
  "module_loaded = \<lparr>TRACK_ID = 1, instances = []\<rparr>"

fun step :: "'k kalman \<Rightarrow> 'k world \<Rightarrow> event \<Rightarrow> 'k world \<times> int list" where
  "step f w (Construct md mm) =
     (case PeopleTracker md mm of (c, t) \<Rightarrow>
        (\<lparr>TRACK_ID = c, instances = instances w @ [t]\<rparr>, []))"
| "step f w (Update i dets) =
     (if i < length (instances w) then
        case update f (TRACK_ID w) (instances w ! i) dets of (c, t, results, lg) \<Rightarrow>
          (\<lparr>TRACK_ID = c, instances = (instances w)[i := t]\<rparr>,
           map tr_id (created f (TRACK_ID w) (instances w ! i) dets))
      else (w, []))"

fun run :: "'k kalman \<Rightarrow> 'k world \<Rightarrow> event list \<Rightarrow> 'k world \<times> (event \<times> int list) list" where
  "run f w [] = (w, [])"
| "run f w (e # es) =
     (case step f w e of (w1, ids) \<Rightarrow>
        case run f w1 es of (w2, history) \<Rightarrow> (w2, (e, ids) # history))"

fun is_Update :: "event \<Rightarrow> bool" where
  "is_Update (Update i dets) = True"
| "is_Update (Construct md mm) = False"

text \<open>The ids handed out, in order, by the update calls on instance \<open>i\<close>.\<close>

fun assigned_to :: "nat \<Rightarrow> (event \<times> int list) list \<Rightarrow> int list" where
  "assigned_to i [] = []"
| "assigned_to i ((Update j dets, ids) # history) =
     (if j = i then ids @ assigned_to i history else assigned_to i history)"
| "assigned_to i ((Construct md mm, ids) # history) = assigned_to i history"

section \<open>A constant-velocity Kalman filter\<close>

text \<open>
  Modelled from the spec: the code of \<open>KalmanFilter.predict\<close> and \<open>KalmanFilter.update\<close>
  belongs to the filterpy library and is not in the repository. This instance is the
  Motion Estimator of the specification: state \<open>[cx, cy, vx, vy]\<close>, \<open>predict\<close> advances
  the position by the velocity and adds the process noise, \<open>update\<close> is the Kalman
  correction on the position components. The matrices are the ones \<open>Track.__init__\<close>
  sets: \<open>F\<close>, \<open>H\<close>, \<open>P = 100 I\<close>, \<open>R = 5 I\<close>, \<open>Q = 0.01 I\<close>. The theorems below hold for every
  filter; this one evaluates concrete frames.
\<close>

record kstate =
  kx :: "real list"
  kP :: "real list list"

fun dot :: "real list \<Rightarrow> real list \<Rightarrow> real" where
  "dot (a # u) (b # v) = a * b + dot u v"
| "dot u v = 0"

fun mat_vec :: "real list list \<Rightarrow> real list \<Rightarrow> real list" where
  "mat_vec [] v = []"
| "mat_vec (row # A) v = dot row v # mat_vec A v"

fun vec_add :: "real list \<Rightarrow> real list \<Rightarrow> real list" where
  "vec_add (a # u) (b # v) = (a + b) # vec_add u v"
| "vec_add u v = []"

fun vec_sub :: "real list \<Rightarrow> real list \<Rightarrow> real list" where
  "vec_sub (a # u) (b # v) = (a - b) # vec_sub u v"
| "vec_sub u v = []"

fun mat_add :: "real list list \<Rightarrow> real list list \<Rightarrow> real list list" where
  "mat_add (r # A) (q # B) = vec_add r q # mat_add A B"
| "mat_add A B = []"

fun mat_sub :: "real list list \<Rightarrow> real list list \<Rightarrow> real list list" where
  "mat_sub (r # A) (q # B) = vec_sub r q # mat_sub A B"
| "mat_sub A B = []"

text \<open>\<open>mul_T A B\<close> is \<open>dot(A, B.T)\<close>: every row of \<open>A\<close> against every row of \<open>B\<close>.\<close>

fun row_T :: "real list \<Rightarrow> real list list \<Rightarrow> real list" where
  "row_T r [] = []"
| "row_T r (q # B) = dot r q # row_T r B"

fun mul_T :: "real list list \<Rightarrow> real list list \<Rightarrow> real list list" where
  "mul_T [] B = []"
| "mul_T (r # A) B = row_T r B # mul_T A B"

fun cons_col :: "real list \<Rightarrow> real list list \<Rightarrow> real list list" where
  "cons_col (a # r) (q # B) = (a # q) # cons_col r B"
| "cons_col (a # r) [] = [a] # cons_col r []"
| "cons_col [] B = []"

fun mat_T :: "real list list \<Rightarrow> real list list" where
  "mat_T [] = []"
| "mat_T (r # A) = cons_col r (mat_T A)"

definition mat_mul :: "real list list \<Rightarrow> real list list \<Rightarrow> real list list" where
  "mat_mul A B = mul_T A (mat_T B)"

definition kF :: "real list list" where
  "kF = [[1, 0, 1, 0], [0, 1, 0, 1], [0, 0, 1, 0], [0, 0, 0, 1]]"

definition kH :: "real list list" where
  "kH = [[1, 0, 0, 0], [0, 1, 0, 0]]"

definition eye4 :: "real \<Rightarrow> real list list" where
  "eye4 c = [[c, 0, 0, 0], [0, c, 0, 0], [0, 0, c, 0], [0, 0, 0, c]]"

definition eye2 :: "real \<Rightarrow> real list list" where
  "eye2 c = [[c, 0], [0, c]]"

text \<open>The inverse of a 2x2 matrix; a singular matrix is the numeric failure.\<close>

fun inv2 :: "real list list \<Rightarrow> real list list option" where
  "inv2 [[a, b], [c, d]] =
     (if a * d - b * c = 0 then None
      else Some [[d / (a * d - b * c), - b / (a * d - b * c)],
                 [- c / (a * d - b * c), a / (a * d - b * c)]])"
| "inv2 S = None"

definition kalman_init :: "real \<times> real \<Rightarrow> kstate" where
  "kalman_init c = \<lparr>kx = [fst c, snd c, 0, 0], kP = eye4 100\<rparr>"

definition kalman_predict :: "kstate \<Rightarrow> kstate outcome" where
  "kalman_predict k =
     Returned \<lparr>kx = mat_vec kF (kx k),
               kP = mat_add (mul_T (mat_mul kF (kP k)) kF) (eye4 (1 / 100))\<rparr>"

definition kalman_update :: "kstate \<Rightarrow> real \<times> real \<Rightarrow> kstate outcome" where
  "kalman_update k z =
     (let y = vec_sub [fst z, snd z] (mat_vec kH (kx k));
          PHT = mul_T (kP k) kH;
          S = mat_add (mat_mul kH PHT) (eye2 5)
      in case inv2 S of
           None \<Rightarrow> Raised k
         | Some SI \<Rightarrow>
             let K = mat_mul PHT SI;
                 x' = vec_add (kx k) (mat_vec K y);
                 I_KH = mat_sub (eye4 1) (mat_mul K kH);
                 P' = mat_add (mul_T (mat_mul I_KH (kP k)) I_KH)
                        (mul_T (mat_mul K (eye2 5)) K)
             in Returned \<lparr>kx = x', kP = P'\<rparr>)"

definition kalman_x :: "kstate \<Rightarrow> real \<times> real" where
  "kalman_x k = (case kx k of a # b # r \<Rightarrow> (a, b) | _ \<Rightarrow> (0, 0))"

definition filterpy :: "kstate kalman" where
  "filterpy = \<lparr>kf_init = kalman_init, kf_predict = kalman_predict,
               kf_update = kalman_update, kf_x = kalman_x\<rparr>"

text \<open>The same filter with a \<open>predict\<close> that raises before it changes anything.\<close>

definition predict_raises :: "kstate kalman" where
  "predict_raises = filterpy\<lparr>kf_predict := Raised\<rparr>"

text \<open>The same filter with an \<open>update\<close> that raises before it changes anything.\<close>

definition update_raises :: "kstate kalman" where
  "update_raises = filterpy\<lparr>kf_update := (\<lambda>k z. Raised k)\<rparr>"

section \<open>Definitions that follow the wording of the specification\<close>

text \<open>"Integer midpoint of the box, rounded toward zero".\<close>

definition half_toward_zero :: "int \<Rightarrow> int" where
  "half_toward_zero n = (if 0 \<le> n then n div 2 else - ((- n) div 2))"

definition midpoint_toward_zero :: "bbox \<Rightarrow> int \<times> int" where
  "midpoint_toward_zero b =
     (case b of (x1, y1, x2, y2) \<Rightarrow> (half_toward_zero (x1 + x2), half_toward_zero (y1 + y2)))"

text \<open>"x1<x2, y1<y2, confidence in [0,1]".\<close>

definition well_formed :: "detection \<Rightarrow> bool" where
  "well_formed det =
     (case det_bbox det of (x1, y1, x2, y2) \<Rightarrow>
        x1 < x2 \<and> y1 < y2 \<and> (case det_conf det of None \<Rightarrow> False | Some c \<Rightarrow> 0 \<le> c \<and> c \<le> 1))"

text \<open>
  "Among detections not yet claimed this frame, select the one with minimum Euclidean
  centroid distance; ties broken by lowest detection index."
\<close>

definition nearest_unclaimed :: "real \<times> real \<Rightarrow> nat set \<Rightarrow> (int \<times> int) list \<Rightarrow> nat option" where
  "nearest_unclaimed c claimed centers =
     (let candidates = filter (\<lambda>di. di \<notin> claimed) [0..<length centers] in
      if candidates = [] then None
      else
        let m = Min (set (map (\<lambda>di. distance c (center_point (centers ! di))) candidates))
        in find (\<lambda>di. distance c (center_point (centers ! di)) = m) candidates)"

text \<open>
  "Process tracks in their existing order. Accept the match only if that minimum
  distance is \<le> max_distance; otherwise the track is unmatched this frame and no
  detection is consumed. Mark the chosen detection as claimed."
  The pairing lists, for every track in order, the detection it is matched to.
\<close>

fun greedy_pairing ::
  "real \<Rightarrow> (int \<times> int) list \<Rightarrow> (real \<times> real) list \<Rightarrow> nat set \<Rightarrow> nat option list" where
  "greedy_pairing md centers [] claimed = []"
| "greedy_pairing md centers (c # cs) claimed =
     (case nearest_unclaimed c claimed centers of
        None \<Rightarrow> None # greedy_pairing md centers cs claimed
      | Some di \<Rightarrow>
          if distance c (center_point (centers ! di)) \<le> md
          then Some di # greedy_pairing md centers cs (insert di claimed)
          else None # greedy_pairing md centers cs claimed)"

text \<open>What the frame does to one track, given the detection paired with it.\<close>

definition apply_pairing :: "'k kalman \<Rightarrow> detection list \<Rightarrow> 'k track \<Rightarrow> nat option \<Rightarrow> 'k track" where
  "apply_pairing f dets tr p =
     (case p of
        None \<Rightarrow> tr\<lparr>missed_frames := missed_frames tr + 1\<rparr>
      | Some di \<Rightarrow> fst (track_update f tr (det_bbox (dets ! di))))"

text \<open>\<open>n\<close> consecutive frames without detections.\<close>

fun empty_frames :: "'k kalman \<Rightarrow> nat \<Rightarrow> int \<times> 'k tracker \<Rightarrow> int \<times> 'k tracker \<times> result list" where
  "empty_frames f 0 (c, s) = (c, s, [])"
| "empty_frames f (Suc n) (c, s) =
     (case empty_frames f n (c, s) of (c1, s1, r1) \<Rightarrow>
        case update f c1 s1 [] of (c2, s2, r2, lg) \<Rightarrow> (c2, s2, r2))"

section \<open>Auxiliary definitions\<close>

text \<open>The diagnostics an iteration of the association loop logs for one track.\<close>

definition pairing_log :: "'k kalman \<Rightarrow> detection list \<Rightarrow> 'k track \<Rightarrow> nat option \<Rightarrow> diag list" where
  "pairing_log f dets tr p =
     (case p of None \<Rightarrow> [] | Some di \<Rightarrow> snd (track_update f tr (det_bbox (dets ! di))))"

text \<open>The positions, counted from \<open>n\<close>, of the tracks a pairing matches.\<close>

fun matched_positions :: "nat \<Rightarrow> nat option list \<Rightarrow> nat set" where
  "matched_positions n [] = {}"
| "matched_positions n (p # P) =
     (case p of None \<Rightarrow> {} | Some di \<Rightarrow> {n}) \<union> matched_positions (Suc n) P"

text \<open>The detections a pairing claims.\<close>

definition claimed_by :: "nat option list \<Rightarrow> nat set" where
  "claimed_by P = {di. Some di \<in> set P}"

text \<open>The nearest unclaimed detection, if it lies within the gate.\<close>

definition gated_nearest :: "real \<Rightarrow> (int \<times> int) list \<Rightarrow> real \<times> real \<Rightarrow> nat set \<Rightarrow> nat option" where
  "gated_nearest md centers c claimed =
     (case nearest_unclaimed c claimed centers of
        None \<Rightarrow> None
      | Some di \<Rightarrow> if distance c (center_point (centers ! di)) \<le> md then Some di else None)"

text \<open>The tracks after step 1 of a frame, and the greedy pairing on their centroids.\<close>

definition predicted :: "'k kalman \<Rightarrow> 'k tracker \<Rightarrow> 'k track list" where
  "predicted f s = fst (predict_all f (tracks s))"

definition pairing :: "'k kalman \<Rightarrow> 'k tracker \<Rightarrow> detection list \<Rightarrow> nat option list" where
  "pairing f s dets =
     greedy_pairing (max_distance s) (map det_center dets)
       (map (\<lambda>t. kf_x f (tr_kf t)) (predicted f s)) {}"

text \<open>The detections of a frame whose index is not in \<open>matched_det_idx\<close>, in input order.\<close>

definition unclaimed :: "nat set \<Rightarrow> detection list \<Rightarrow> detection list" where
  "unclaimed matched_det_idx dets =
     map snd (filter (\<lambda>(di, det). di \<notin> matched_det_idx) (enumerate 0 dets))"

text \<open>The fields of a track that the rest of the program can observe.\<close>

definition visible :: "'k track \<Rightarrow> int \<times> bbox \<times> nat \<times> nat" where
  "visible t = (tr_id t, tr_bbox t, missed_frames t, hits t)"

text \<open>
  What is left of the observable track states after \<open>n\<close> frames in which none of them
  is matched, with the budget \<open>mm\<close>: the tracks whose counter stays within the budget,
  with the counter advanced by \<open>n\<close>.
\<close>

definition aged :: "nat \<Rightarrow> int \<Rightarrow> (int \<times> bbox \<times> nat \<times> nat) list \<Rightarrow> (int \<times> bbox \<times> nat \<times> nat) list" where
  "aged n mm V =
     map (\<lambda>(i, b, m, h). (i, b, m + n, h)) (filter (\<lambda>(i, b, m, h). int m + int n \<le> mm) V)"

text \<open>
  The ids of the tracks of an instance are in order: strictly increasing along the
  list, positive, and below the value \<open>c\<close> of the counter.
\<close>

definition ids_ok :: "int \<Rightarrow> 'k tracker \<Rightarrow> bool" where
  "ids_ok c s \<longleftrightarrow>
     sorted_wrt (<) (map tr_id (tracks s)) \<and> (\<forall>t\<in>set (tracks s). 1 \<le> tr_id t \<and> tr_id t < c)"

section \<open>Concrete frames\<close>

text \<open>Detections and trackers on which the code is evaluated below.\<close>

text \<open>The detection \<open>detect\<close> builds from an integer box and a confidence.\<close>

definition person :: "bbox \<Rightarrow> real \<Rightarrow> detection" where
  "person b c = \<lparr>det_bbox = b, det_conf = Some c, det_class = ''person'',
                 det_center = box_center b\<rparr>"

text \<open>Two people side by side, 20 pixels apart, seen in a first frame.\<close>

definition frame1 :: "detection list" where
  "frame1 = [person (0, 0, 10, 10) (9 / 10), person (20, 0, 30, 10) (7 / 10)]"

text \<open>The tracker after that frame.\<close>

definition two_tracks :: "kstate tracker" where
  "two_tracks = \<lparr>tracks = [Track filterpy (0, 0, 10, 10) 1, Track filterpy (20, 0, 30, 10) 2],
                 max_distance = 60, max_missed = 10\<rparr>"

text \<open>Both have moved by two pixels and a third person appears far away, listed first.\<close>

definition frame2 :: "detection list" where
  "frame2 = [person (200, 200, 210, 210) (6 / 10), person (22, 0, 32, 10) (8 / 10),
             person (2, 0, 12, 10) (9 / 10)]"

text \<open>Two people 500 pixels apart.\<close>

definition apart_tracks :: "kstate tracker" where
  "apart_tracks = \<lparr>tracks = [Track filterpy (0, 0, 10, 10) 1, Track filterpy (500, 0, 510, 10) 2],
                   max_distance = 60, max_missed = 10\<rparr>"

text \<open>Next to the first of them a second detection appears, listed first.\<close>

definition crowded :: "detection list" where
  "crowded = [person (10, 0, 20, 10) (6 / 10), person (0, 0, 10, 10) (9 / 10)]"

text \<open>The first person has moved by ten pixels.\<close>

definition moved :: "detection list" where
  "moved = [person (500, 0, 510, 10) (6 / 10), person (10, 0, 20, 10) (9 / 10)]"

text \<open>Only the first of the two people is detected, two pixels further.\<close>

definition left_only :: "detection list" where
  "left_only = [person (2, 0, 12, 10) (9 / 10)]"

text \<open>A detection with reversed corners and a confidence above 1, next to the first person.\<close>

definition malformed :: detection where
  "malformed = person (12, 10, 2, 0) (3 / 2)"

text \<open>The malformed detection together with a well-formed one far away.\<close>

definition mixed :: "detection list" where
  "mixed = [malformed, person (200, 200, 210, 210) (6 / 10)]"

text \<open>A detection that carries another class label, and the track and record it yields.\<close>

definition dog :: detection where
  "dog = \<lparr>det_bbox = (0, 0, 10, 10), det_conf = Some (9 / 10), det_class = ''dog'',
          det_center = (5, 5)\<rparr>"

definition dog_track :: "kstate track" where
  "dog_track = \<lparr>tr_id = 1, tr_kf = kalman_init (5, 5), tr_bbox = (0, 0, 10, 10),
                missed_frames = 0, hits = 1\<rparr>"

definition dog_result :: result where
  "dog_result = \<lparr>res_id = 1, res_bbox = (0, 0, 10, 10), res_conf = Some (9 / 10),
                 res_class = ''person''\<rparr>"

text \<open>Only the second of the two people is detected, where it was.\<close>

definition right_only :: "detection list" where
  "right_only = [person (20, 0, 30, 10) (8 / 10)]"

text \<open>
  A tracker is constructed and sees one person; a second tracker is constructed; the
  first tracker then sees the same person and a second one far away.
\<close>

definition reconstruction :: "event list" where
  "reconstruction =
     [Construct 60 10, Update 0 [person (0, 0, 10, 10) (9 / 10)], Construct 60 10,
      Update 0 [person (0, 0, 10, 10) (9 / 10), person (200, 200, 210, 210) (6 / 10)]]"

text \<open>The module with one tracker already constructed.\<close>

definition one_instance :: "kstate world" where
  "one_instance = \<lparr>TRACK_ID = 1, instances = [snd (PeopleTracker 60 10)]\<rparr>"

text \<open>
  A second tracker is constructed and fed two frames, with a frame of the first
  tracker in between.
\<close>

definition lifetime :: "event list" where
  "lifetime = [Construct 60 10, Update 1 frame1, Update 0 frame1, Update 1 frame2]"

text \<open>One detection whose box has an odd horizontal coordinate sum.\<close>

definition odd_box :: "detection list" where
  "odd_box = [person (1, 0, 12, 10) (9 / 10)]"

section \<open>Evaluating concrete frames\<close>

lemma distance_le_iff:
  "0 \<le> r \<Longrightarrow> distance a b \<le> r \<longleftrightarrow> (fst a - fst b)\<^sup>2 + (snd a - snd b)\<^sup>2 \<le> r\<^sup>2"
  unfolding distance_def by (metis real_sqrt_le_iff real_sqrt_abs abs_of_nonneg)

lemma distance_less_iff:
  "distance a b < distance a c \<longleftrightarrow>
     (fst a - fst b)\<^sup>2 + (snd a - snd b)\<^sup>2 < (fst a - fst c)\<^sup>2 + (snd a - snd c)\<^sup>2"
  unfolding distance_def by simp

lemmas frame_eval =
  update_def processed_def created_def PeopleTracker_def enumerate_eq_zip prune_def alive_def
  Track_def to_result_def attach_one_def measured_centroid_def track_predict_def
  track_update_def center_point_def distance_le_iff distance_less_iff Let_def

lemmas filterpy_eval =
  filterpy_def kalman_init_def kalman_predict_def kalman_update_def kalman_x_def
  mat_mul_def kF_def kH_def eye4_def eye2_def

section \<open>The result list\<close>

lemma attach_one_fields:
  "map res_class (attach_one det rs) = map res_class rs"
  "map res_id (attach_one det rs) = map res_id rs"
  "map res_bbox (attach_one det rs) = map res_bbox rs"
  by (simp_all add: attach_one_def)

lemma attach_conf_fields:
  "map res_class (attach_conf dets rs) = map res_class rs"
  "map res_id (attach_conf dets rs) = map res_id rs"
  "map res_bbox (attach_conf dets rs) = map res_bbox rs"
  by (induction dets arbitrary: rs) (simp_all add: attach_one_fields)

lemma update_results:
  assumes "update f c s dets = (c', s', results, lg)"
  shows "results = attach_conf dets (map to_result (tracks s'))"
  using assms by (auto simp: update_def Let_def split: prod.splits)

lemma update_result_fields:
  assumes "update f c s dets = (c', s', results, lg)"
  shows "map res_class results = map (\<lambda>t. ''person'') (tracks s')"
    and "map res_id results = map tr_id (tracks s')"
    and "map res_bbox results = map tr_bbox (tracks s')"
  unfolding update_results [OF assms]
  by (simp_all add: attach_conf_fields to_result_def comp_def)

text \<open>
  C10: every record of the result list of a frame has class \<open>"person"\<close>, whatever class
  labels the detections of the frame carry.
\<close>

theorem result_class_person:
  assumes "update f c s dets = (c', s', results, lg)" and "r \<in> set results"
  shows "res_class r = ''person''"
proof -
  from assms(2) have "res_class r \<in> set (map res_class results)" by simp
  then show ?thesis unfolding update_result_fields(1) [OF assms(1)] by auto
qed

theorem result_class_person_witness:
  "update filterpy 1 (snd (PeopleTracker 60 10)) [dog] =
     (2, \<lparr>tracks = [dog_track], max_distance = 60, max_missed = 10\<rparr>, [dog_result], []) \<and>
   dog_result \<in> set [dog_result] \<and> det_class dog = ''dog'' \<and> res_class dog_result = ''person''"
proof -
  have e: "update filterpy 1 (snd (PeopleTracker 60 10)) [dog] =
     (2, \<lparr>tracks = [dog_track], max_distance = 60, max_missed = 10\<rparr>, [dog_result], [])"
    by (simp add: frame_eval filterpy_eval dog_def dog_track_def dog_result_def)
  have m: "dog_result \<in> set [dog_result]" by simp
  from result_class_person [OF e m] e m show ?thesis by (simp add: dog_def)
qed

section \<open>The inner loop selects the nearest unclaimed detection\<close>

lemma best_detection_cases:
  fixes c m
  defines "gap \<equiv> (\<lambda>dc. distance c (center_point dc))"
  shows "(best_detection c m (enumerate n cs) best = best \<and>
          (\<forall>k<length cs. n + k \<notin> m \<longrightarrow> (\<exists>bd bi. best = Some (bd, bi) \<and> bd \<le> gap (cs ! k)))) \<or>
         (\<exists>j<length cs. best_detection c m (enumerate n cs) best = Some (gap (cs ! j), n + j) \<and>
            n + j \<notin> m \<and>
            (\<forall>bd bi. best = Some (bd, bi) \<longrightarrow> gap (cs ! j) < bd) \<and>
            (\<forall>k<j. n + k \<notin> m \<longrightarrow> gap (cs ! j) < gap (cs ! k)) \<and>
            (\<forall>k<length cs. n + k \<notin> m \<longrightarrow> gap (cs ! j) \<le> gap (cs ! k)))"
    (is "?A n cs best \<or> ?B n cs best")
proof (induction cs arbitrary: n best)
  case Nil
  then show ?case by simp
next
  case (Cons dc cs)
  show ?case
  proof (cases "n \<in> m")
    case True
    have step: "best_detection c m (enumerate n (dc # cs)) best =
                best_detection c m (enumerate (Suc n) cs) best"
      using True by simp
    from Cons.IH [of "Suc n" best] show ?thesis
    proof
      assume a: "?A (Suc n) cs best"
      have "?A n (dc # cs) best"
        unfolding step using a True by (auto simp: less_Suc_eq_0_disj)
      then show ?thesis ..
    next
      assume "?B (Suc n) cs best"
      then obtain j where j: "j < length cs"
        "best_detection c m (enumerate (Suc n) cs) best = Some (gap (cs ! j), Suc n + j)"
        "Suc n + j \<notin> m" "\<forall>bd bi. best = Some (bd, bi) \<longrightarrow> gap (cs ! j) < bd"
        "\<forall>k<j. Suc n + k \<notin> m \<longrightarrow> gap (cs ! j) < gap (cs ! k)"
        "\<forall>k<length cs. Suc n + k \<notin> m \<longrightarrow> gap (cs ! j) \<le> gap (cs ! k)" by blast
      have "?B n (dc # cs) best"
        apply (rule exI [of _ "Suc j"])
        unfolding step using j True by (auto simp: less_Suc_eq_0_disj)
      then show ?thesis ..
    qed
  next
    case False
    show ?thesis
    proof (cases "case best of None \<Rightarrow> True | Some (bd, bi) \<Rightarrow> gap dc < bd")
      case True
      have step: "best_detection c m (enumerate n (dc # cs)) best =
                  best_detection c m (enumerate (Suc n) cs) (Some (gap dc, n))"
        using False True unfolding gap_def by (simp add: Let_def)
      from Cons.IH [of "Suc n" "Some (gap dc, n)"] show ?thesis
      proof
        assume a: "?A (Suc n) cs (Some (gap dc, n))"
        have "?B n (dc # cs) best"
          apply (rule exI [of _ 0])
          unfolding step using a False True by (auto simp: less_Suc_eq_0_disj)
        then show ?thesis ..
      next
        assume "?B (Suc n) cs (Some (gap dc, n))"
        then obtain j where j: "j < length cs"
          "best_detection c m (enumerate (Suc n) cs) (Some (gap dc, n)) =
             Some (gap (cs ! j), Suc n + j)"
          "Suc n + j \<notin> m" "gap (cs ! j) < gap dc"
          "\<forall>k<j. Suc n + k \<notin> m \<longrightarrow> gap (cs ! j) < gap (cs ! k)"
          "\<forall>k<length cs. Suc n + k \<notin> m \<longrightarrow> gap (cs ! j) \<le> gap (cs ! k)" by blast
        have "?B n (dc # cs) best"
          apply (rule exI [of _ "Suc j"])
          unfolding step using j True by (auto simp: less_Suc_eq_0_disj split: option.splits)
        then show ?thesis ..
      qed
    next
      case F2: False
      then obtain bd bi where best: "best = Some (bd, bi)" "bd \<le> gap dc"
        by (auto split: option.splits)
      have step: "best_detection c m (enumerate n (dc # cs)) best =
                  best_detection c m (enumerate (Suc n) cs) best"
        using False best unfolding gap_def by (simp add: Let_def)
      from Cons.IH [of "Suc n" best] show ?thesis
      proof
        assume a: "?A (Suc n) cs best"
        have "?A n (dc # cs) best"
          unfolding step using a best by (auto simp: less_Suc_eq_0_disj)
        then show ?thesis ..
      next
        assume "?B (Suc n) cs best"
        then obtain j where j: "j < length cs"
          "best_detection c m (enumerate (Suc n) cs) best = Some (gap (cs ! j), Suc n + j)"
          "Suc n + j \<notin> m" "\<forall>bd bi. best = Some (bd, bi) \<longrightarrow> gap (cs ! j) < bd"
          "\<forall>k<j. Suc n + k \<notin> m \<longrightarrow> gap (cs ! j) < gap (cs ! k)"
          "\<forall>k<length cs. Suc n + k \<notin> m \<longrightarrow> gap (cs ! j) \<le> gap (cs ! k)" by blast
        have "?B n (dc # cs) best"
          apply (rule exI [of _ "Suc j"])
          unfolding step using j best by (auto simp: less_Suc_eq_0_disj)
        then show ?thesis ..
      qed
    qed
  qed
qed

lemma find_least:
  fixes x :: nat
  assumes "sorted_wrt (<) xs" "x \<in> set xs" "Q x" "\<forall>y\<in>set xs. y < x \<longrightarrow> \<not> Q y"
  shows "find Q xs = Some x"
  using assms
proof (induction xs)
  case Nil
  then show ?case by simp
next
  case (Cons a xs)
  show ?case
  proof (cases "a = x")
    case True
    then show ?thesis using Cons.prems by simp
  next
    case False
    then have "x \<in> set xs" using Cons.prems by simp
    moreover have "a < x" using Cons.prems(1) \<open>x \<in> set xs\<close> by auto
    then have "\<not> Q a" using Cons.prems(4) by simp
    ultimately show ?thesis using Cons by simp
  qed
qed

lemma nearest_unclaimed_NoneI:
  assumes "\<forall>k<length cs. k \<in> m"
  shows "nearest_unclaimed c m cs = None"
proof -
  have "filter (\<lambda>di. di \<notin> m) [0..<length cs] = []"
    using assms by (simp add: filter_empty_conv)
  then show ?thesis by (simp add: nearest_unclaimed_def)
qed

lemma nearest_unclaimed_SomeI:
  assumes j: "j < length cs" "j \<notin> m"
    and le: "\<forall>k<length cs. k \<notin> m \<longrightarrow>
               distance c (center_point (cs ! j)) \<le> distance c (center_point (cs ! k))"
    and lt: "\<forall>k<j. k \<notin> m \<longrightarrow>
               distance c (center_point (cs ! j)) < distance c (center_point (cs ! k))"
  shows "nearest_unclaimed c m cs = Some j"
proof -
  define cand where "cand = filter (\<lambda>di. di \<notin> m) [0..<length cs]"
  define gap where "gap = (\<lambda>di. distance c (center_point (cs ! di)))"
  have jc: "j \<in> set cand" using j by (simp add: cand_def)
  then have ne: "cand \<noteq> []" by auto
  have mn: "Min (set (map gap cand)) = gap j"
  proof (rule Min_eqI)
    show "finite (set (map gap cand))" by simp
    show "\<And>y. y \<in> set (map gap cand) \<Longrightarrow> gap j \<le> y"
      using le by (auto simp: cand_def gap_def)
    show "gap j \<in> set (map gap cand)" using jc by simp
  qed
  have srt: "sorted_wrt (<) cand" unfolding cand_def by (rule sorted_wrt_filter) simp
  have "find (\<lambda>di. gap di = gap j) cand = Some j"
  proof (rule find_least [OF srt jc])
    show "gap j = gap j" by simp
    show "\<forall>y\<in>set cand. y < j \<longrightarrow> gap y \<noteq> gap j"
      using lt by (auto simp: cand_def gap_def)
  qed
  then show ?thesis
    using ne mn unfolding nearest_unclaimed_def cand_def [symmetric] gap_def [symmetric]
    by (simp add: Let_def gap_def)
qed

lemma best_detection_nearest:
  "best_detection c m (enumerate 0 cs) None =
     map_option (\<lambda>j. (distance c (center_point (cs ! j)), j)) (nearest_unclaimed c m cs)"
  using best_detection_cases [of c m 0 cs None]
  by (auto simp: nearest_unclaimed_NoneI nearest_unclaimed_SomeI)

lemma nearest_unclaimed_SomeD:
  assumes "nearest_unclaimed c m cs = Some j"
  shows "j < length cs" and "j \<notin> m"
    and "\<forall>k<length cs. k \<notin> m \<longrightarrow>
           distance c (center_point (cs ! j)) \<le> distance c (center_point (cs ! k))"
    and "\<forall>k<j. k \<notin> m \<longrightarrow>
           distance c (center_point (cs ! j)) < distance c (center_point (cs ! k))"
proof -
  have "j < length cs \<and> j \<notin> m \<and>
        (\<forall>k<length cs. k \<notin> m \<longrightarrow>
           distance c (center_point (cs ! j)) \<le> distance c (center_point (cs ! k))) \<and>
        (\<forall>k<j. k \<notin> m \<longrightarrow>
           distance c (center_point (cs ! j)) < distance c (center_point (cs ! k)))"
    using best_detection_cases [of c m 0 cs None] assms
    by (auto simp: nearest_unclaimed_NoneI nearest_unclaimed_SomeI)
  then show "j < length cs" and "j \<notin> m"
    and "\<forall>k<length cs. k \<notin> m \<longrightarrow>
           distance c (center_point (cs ! j)) \<le> distance c (center_point (cs ! k))"
    and "\<forall>k<j. k \<notin> m \<longrightarrow>
           distance c (center_point (cs ! j)) < distance c (center_point (cs ! k))"
    by blast+
qed

section \<open>The association loop computes the greedy pairing\<close>

lemma length_greedy_pairing [simp]: "length (greedy_pairing md centers cs claimed) = length cs"
  by (induction cs arbitrary: claimed) (auto split: option.splits)

lemma claimed_by_simps [simp]:
  "claimed_by [] = {}"
  "claimed_by (None # P) = claimed_by P"
  "claimed_by (Some di # P) = insert di (claimed_by P)"
  by (auto simp: claimed_by_def)

lemma matched_indices_Cons:
  "{n + i |i. i < Suc (length P) \<and> (p # P) ! i \<noteq> None} =
     (if p = None then {} else {n}) \<union> {Suc n + i |i. i < length P \<and> P ! i \<noteq> None}"
proof -
  have "\<And>x. (\<exists>i. x = n + i \<and> i < Suc (length P) \<and> (p # P) ! i \<noteq> None) \<longleftrightarrow>
            (x = n \<and> p \<noteq> None) \<or> (\<exists>i. x = Suc n + i \<and> i < length P \<and> P ! i \<noteq> None)"
  proof -
    fix x
    show "(\<exists>i. x = n + i \<and> i < Suc (length P) \<and> (p # P) ! i \<noteq> None) \<longleftrightarrow>
            (x = n \<and> p \<noteq> None) \<or> (\<exists>i. x = Suc n + i \<and> i < length P \<and> P ! i \<noteq> None)"
      (is "?L \<longleftrightarrow> ?R")
    proof
      assume ?L
      then obtain i where i: "x = n + i" "i < Suc (length P)" "(p # P) ! i \<noteq> None" by blast
      show ?R
      proof (cases i)
        case 0
        then show ?thesis using i by simp
      next
        case (Suc k)
        then show ?thesis using i by auto
      qed
    next
      assume ?R
      then show ?L
      proof
        assume "x = n \<and> p \<noteq> None"
        then show ?L by (intro exI [of _ 0]) simp
      next
        assume "\<exists>i. x = Suc n + i \<and> i < length P \<and> P ! i \<noteq> None"
        then obtain k where "x = Suc n + k" "k < length P" "P ! k \<noteq> None" by blast
        then show ?L by (intro exI [of _ "Suc k"]) simp
      qed
    qed
  qed
  then show ?thesis by (auto split: if_splits)
qed

lemma matched_positions_eq:
  "matched_positions n P = {n + i |i. i < length P \<and> P ! i \<noteq> None}"
proof (induction P arbitrary: n)
  case Nil
  then show ?case by simp
next
  case (Cons p P)
  show ?case
    unfolding matched_positions.simps Cons.IH length_Cons matched_indices_Cons
    by (cases p) simp_all
qed

lemma associate_greedy:
  "associate f md dets (enumerate n trs) mdi mti =
     (let P = greedy_pairing md (map det_center dets) (map (\<lambda>t. kf_x f (tr_kf t)) trs) mdi
      in (map2 (apply_pairing f dets) trs P,
          mdi \<union> claimed_by P,
          mti \<union> matched_positions n P,
          concat (map2 (pairing_log f dets) trs P)))"
proof (induction trs arbitrary: n mdi mti)
  case Nil
  then show ?case by simp
next
  case (Cons tr trs)
  let ?cs = "map det_center dets"
  let ?c = "kf_x f (tr_kf tr)"
  show ?case
  proof (cases "nearest_unclaimed ?c mdi ?cs")
    case None
    then show ?thesis
      by (simp add: best_detection_nearest Cons.IH Let_def apply_pairing_def pairing_log_def)
  next
    case (Some di)
    from nearest_unclaimed_SomeD(1) [OF Some] have di: "di < length dets" by simp
    show ?thesis
    proof (cases "distance ?c (center_point (?cs ! di)) \<le> md")
      case True
      then show ?thesis
        using Some di
        by (simp add: best_detection_nearest Cons.IH Let_def apply_pairing_def pairing_log_def
            split: prod.splits)
    next
      case False
      then show ?thesis
        using Some di
        by (simp add: best_detection_nearest Cons.IH Let_def apply_pairing_def pairing_log_def)
    qed
  qed
qed

lemma greedy_pairing_Cons:
  "greedy_pairing md centers (c # cs) claimed =
     gated_nearest md centers c claimed #
     greedy_pairing md centers cs (claimed \<union> claimed_by [gated_nearest md centers c claimed])"
  by (cases "gated_nearest md centers c claimed")
     (auto simp: gated_nearest_def split: option.splits if_splits)

lemma claimed_by_append [simp]: "claimed_by (P @ Q) = claimed_by P \<union> claimed_by Q"
  by (auto simp: claimed_by_def)

lemma greedy_pairing_append:
  "greedy_pairing md centers (xs @ ys) claimed =
     greedy_pairing md centers xs claimed @
     greedy_pairing md centers ys (claimed \<union> claimed_by (greedy_pairing md centers xs claimed))"
proof (induction xs arbitrary: claimed)
  case Nil
  then show ?case by simp
next
  case (Cons c xs)
  show ?case
    unfolding append_Cons greedy_pairing_Cons Cons.IH
    by (cases "gated_nearest md centers c claimed") (simp_all add: Un_assoc)
qed

lemma greedy_pairing_take:
  "take i (greedy_pairing md centers cs claimed) = greedy_pairing md centers (take i cs) claimed"
proof -
  have "greedy_pairing md centers (take i cs @ drop i cs) claimed =
          greedy_pairing md centers (take i cs) claimed @
          greedy_pairing md centers (drop i cs)
            (claimed \<union> claimed_by (greedy_pairing md centers (take i cs) claimed))"
    by (rule greedy_pairing_append)
  then have "take i (greedy_pairing md centers cs claimed) =
          take i (greedy_pairing md centers (take i cs) claimed @
          greedy_pairing md centers (drop i cs)
            (claimed \<union> claimed_by (greedy_pairing md centers (take i cs) claimed)))"
    by simp
  also have "\<dots> = greedy_pairing md centers (take i cs) claimed"
    by (simp add: min_def)
  finally show ?thesis .
qed

lemma greedy_pairing_nth:
  assumes "i < length cs"
  shows "greedy_pairing md centers cs claimed ! i =
           gated_nearest md centers (cs ! i)
             (claimed \<union> claimed_by (take i (greedy_pairing md centers cs claimed)))"
proof -
  let ?P1 = "greedy_pairing md centers (take i cs) claimed"
  have split: "cs = take i cs @ cs ! i # drop (Suc i) cs"
    using assms by (simp add: id_take_nth_drop [symmetric])
  have "greedy_pairing md centers cs claimed =
          ?P1 @ greedy_pairing md centers (cs ! i # drop (Suc i) cs) (claimed \<union> claimed_by ?P1)"
    using greedy_pairing_append [of md centers "take i cs" "cs ! i # drop (Suc i) cs" claimed]
    split by (simp del: greedy_pairing.simps)
  moreover have "length ?P1 = i" using assms by simp
  ultimately have "greedy_pairing md centers cs claimed ! i =
          gated_nearest md centers (cs ! i) (claimed \<union> claimed_by ?P1)"
    by (simp add: nth_append greedy_pairing_Cons del: greedy_pairing.simps)
  then show ?thesis by (simp add: greedy_pairing_take)
qed

lemma gated_nearest_Some_iff:
  "gated_nearest md centers c claimed = Some di \<longleftrightarrow>
     di < length centers \<and> di \<notin> claimed \<and>
     distance c (center_point (centers ! di)) \<le> md \<and>
     (\<forall>dj<length centers. dj \<notin> claimed \<longrightarrow>
        distance c (center_point (centers ! di)) \<le> distance c (center_point (centers ! dj)) \<and>
        (distance c (center_point (centers ! dj)) = distance c (center_point (centers ! di))
           \<longrightarrow> di \<le> dj))"
  (is "?L \<longleftrightarrow> ?R")
proof
  assume ?L
  then have n: "nearest_unclaimed c claimed centers = Some di"
    and g: "distance c (center_point (centers ! di)) \<le> md"
    by (auto simp: gated_nearest_def split: option.splits if_splits)
  from nearest_unclaimed_SomeD [OF n] g show ?R
    by (metis leI less_irrefl)
next
  assume r: ?R
  have "nearest_unclaimed c claimed centers = Some di"
  proof (rule nearest_unclaimed_SomeI)
    show "di < length centers" "di \<notin> claimed" using r by auto
    show "\<forall>k<length centers. k \<notin> claimed \<longrightarrow>
            distance c (center_point (centers ! di)) \<le> distance c (center_point (centers ! k))"
      using r by blast
    show "\<forall>k<di. k \<notin> claimed \<longrightarrow>
            distance c (center_point (centers ! di)) < distance c (center_point (centers ! k))"
    proof (intro allI impI)
      fix k assume k: "k < di" "k \<notin> claimed"
      then have kl: "k < length centers" using r by simp
      from r kl k(2) have "distance c (center_point (centers ! di))
                \<le> distance c (center_point (centers ! k))"
        and "distance c (center_point (centers ! k)) = distance c (center_point (centers ! di))
               \<longrightarrow> di \<le> k" by blast+
      with k(1) show "distance c (center_point (centers ! di))
                < distance c (center_point (centers ! k))" by force
    qed
  qed
  then show ?L using r by (simp add: gated_nearest_def)
qed

section \<open>The stages of a frame\<close>

lemma predict_all_eq:
  "predict_all f trs =
     (map (\<lambda>t. fst (track_predict f t)) trs, concat (map (\<lambda>t. snd (track_predict f t)) trs))"
  by (induction trs) (auto split: prod.splits)

lemma track_predict_fields [simp]:
  "tr_id (fst (track_predict f t)) = tr_id t"
  "tr_bbox (fst (track_predict f t)) = tr_bbox t"
  "missed_frames (fst (track_predict f t)) = missed_frames t"
  "hits (fst (track_predict f t)) = hits t"
  by (auto simp: track_predict_def split: outcome.splits)

lemma predicted_eq: "predicted f s = map (\<lambda>t. fst (track_predict f t)) (tracks s)"
  by (simp add: predicted_def predict_all_eq)

lemma length_predicted [simp]: "length (predicted f s) = length (tracks s)"
  by (simp add: predicted_eq)

lemma length_pairing [simp]: "length (pairing f s dets) = length (tracks s)"
  by (simp add: pairing_def)

lemma predicted_fields:
  assumes "ti < length (tracks s)"
  shows "tr_id (predicted f s ! ti) = tr_id (tracks s ! ti)"
    and "tr_bbox (predicted f s ! ti) = tr_bbox (tracks s ! ti)"
    and "missed_frames (predicted f s ! ti) = missed_frames (tracks s ! ti)"
    and "hits (predicted f s ! ti) = hits (tracks s ! ti)"
  using assms by (simp_all add: predicted_eq)

lemma processed_eq:
  "processed f s dets =
     (map2 (apply_pairing f dets) (predicted f s) (pairing f s dets),
      claimed_by (pairing f s dets),
      matched_positions 0 (pairing f s dets),
      snd (predict_all f (tracks s)) @
      concat (map2 (pairing_log f dets) (predicted f s) (pairing f s dets)))"
  by (simp add: processed_def associate_greedy predicted_def pairing_def Let_def
      split: prod.splits)

lemma pairing_nth:
  assumes "ti < length (tracks s)"
  shows "pairing f s dets ! ti =
           gated_nearest (max_distance s) (map det_center dets)
             (kf_x f (tr_kf (predicted f s ! ti))) (claimed_by (take ti (pairing f s dets)))"
  using assms greedy_pairing_nth [of ti "map (\<lambda>t. kf_x f (tr_kf t)) (predicted f s)"
      "max_distance s" "map det_center dets" "{}"]
  by (simp add: pairing_def)

lemma pairing_Some_iff:
  assumes "ti < length (tracks s)"
  shows "pairing f s dets ! ti = Some di \<longleftrightarrow>
     di < length dets \<and> di \<notin> claimed_by (take ti (pairing f s dets)) \<and>
     distance (kf_x f (tr_kf (predicted f s ! ti))) (center_point (det_center (dets ! di)))
       \<le> max_distance s \<and>
     (\<forall>dj<length dets. dj \<notin> claimed_by (take ti (pairing f s dets)) \<longrightarrow>
        distance (kf_x f (tr_kf (predicted f s ! ti))) (center_point (det_center (dets ! di)))
          \<le> distance (kf_x f (tr_kf (predicted f s ! ti))) (center_point (det_center (dets ! dj))) \<and>
        (distance (kf_x f (tr_kf (predicted f s ! ti))) (center_point (det_center (dets ! dj))) =
         distance (kf_x f (tr_kf (predicted f s ! ti))) (center_point (det_center (dets ! di)))
           \<longrightarrow> di \<le> dj))"
  unfolding pairing_nth [OF assms] gated_nearest_Some_iff
  by (auto simp: nth_map)

lemma pairing_not_reused:
  assumes "ti < tj" "tj < length (tracks s)" "pairing f s dets ! ti = Some di"
  shows "pairing f s dets ! tj \<noteq> Some di"
proof
  assume "pairing f s dets ! tj = Some di"
  then have "di \<notin> claimed_by (take tj (pairing f s dets))"
    using pairing_Some_iff [OF assms(2)] by blast
  moreover have "take tj (pairing f s dets) ! ti = Some di"
    using assms by simp
  then have "Some di \<in> set (take tj (pairing f s dets))"
    using assms by (metis length_pairing length_take min.absorb2 nth_mem less_imp_le_nat)
  ultimately show False by (simp add: claimed_by_def)
qed

lemma matched_positions_0: "matched_positions 0 P = {ti. ti < length P \<and> P ! ti \<noteq> None}"
  by (simp add: matched_positions_eq)

lemma claimed_by_take:
  assumes "di \<in> claimed_by (take ti P)"
  shows "\<exists>tj<ti. tj < length P \<and> P ! tj = Some di"
proof -
  from assms have "Some di \<in> set (take ti P)" by (simp add: claimed_by_def)
  then obtain j where "j < length (take ti P)" "take ti P ! j = Some di"
    by (auto simp: in_set_conv_nth)
  then show ?thesis by (intro exI [of _ j]) simp
qed

lemma processed_nth:
  assumes "processed f s dets = (trs2, mdi, mti, lg)" and "ti < length (tracks s)"
  shows "trs2 ! ti = apply_pairing f dets (predicted f s ! ti) (pairing f s dets ! ti)"
    and "ti \<in> mti \<longleftrightarrow> pairing f s dets ! ti \<noteq> None"
    and "length trs2 = length (tracks s)"
  using assms by (auto simp: processed_eq matched_positions_0)

lemma processed_claimed:
  assumes "processed f s dets = (trs2, mdi, mti, lg)"
  shows "di \<in> mdi \<longleftrightarrow> (\<exists>ti<length (tracks s). pairing f s dets ! ti = Some di)"
proof -
  have "mdi = claimed_by (pairing f s dets)" using assms by (simp add: processed_eq)
  then show ?thesis
    by (auto simp: claimed_by_def in_set_conv_nth)
qed

section \<open>Pairings of concrete frames\<close>

text \<open>
  Comparisons of distances reduce to comparisons of squared distances, which the
  simplifier decides on concrete centroids. The trackers \<open>two_tracks\<close> and
  \<open>apart_tracks\<close> are states the code reaches from a fresh tracker in one frame.
\<close>

lemmas example_eval = person_def box_center_def frame1_def two_tracks_def frame2_def

lemma distance_eq_iff:
  "distance a b = distance a c \<longleftrightarrow>
     (fst a - fst b)\<^sup>2 + (snd a - snd b)\<^sup>2 = (fst a - fst c)\<^sup>2 + (snd a - snd c)\<^sup>2"
  unfolding distance_def by simp

lemma distance_le_distance_iff:
  "distance a b \<le> distance a c \<longleftrightarrow>
     (fst a - fst b)\<^sup>2 + (snd a - snd b)\<^sup>2 \<le> (fst a - fst c)\<^sup>2 + (snd a - snd c)\<^sup>2"
  unfolding distance_def by simp

lemmas pairing_eval =
  pairing_def predicted_eq nearest_unclaimed_def track_predict_def center_point_def
  distance_le_iff distance_less_iff distance_eq_iff distance_le_distance_iff Let_def min_def

lemmas failing_eval = predict_raises_def update_raises_def

lemma two_tracks_reached:
  "update filterpy 1 (snd (PeopleTracker 60 10)) frame1 =
     (3, two_tracks,
      [\<lparr>res_id = 1, res_bbox = (0, 0, 10, 10), res_conf = Some (9 / 10), res_class = ''person''\<rparr>,
       \<lparr>res_id = 2, res_bbox = (20, 0, 30, 10), res_conf = Some (7 / 10), res_class = ''person''\<rparr>],
      [])"
  by (simp add: frame_eval filterpy_eval example_eval)

lemma apart_tracks_reached:
  "update filterpy 1 (snd (PeopleTracker 60 10))
     [person (0, 0, 10, 10) (9 / 10), person (500, 0, 510, 10) (7 / 10)] =
     (3, apart_tracks,
      [\<lparr>res_id = 1, res_bbox = (0, 0, 10, 10), res_conf = Some (9 / 10), res_class = ''person''\<rparr>,
       \<lparr>res_id = 2, res_bbox = (500, 0, 510, 10), res_conf = Some (7 / 10), res_class = ''person''\<rparr>],
      [])"
  by (simp add: frame_eval filterpy_eval example_eval apart_tracks_def)

lemma ex_pairing: "pairing filterpy two_tracks frame2 = [Some 2, Some 1]"
  by (simp add: pairing_eval filterpy_eval example_eval Track_def measured_centroid_def)

lemma left_only_pairing: "pairing filterpy two_tracks left_only = [Some 0, None]"
  by (simp add: pairing_eval filterpy_eval example_eval left_only_def Track_def
      measured_centroid_def)

section \<open>Association\<close>

text \<open>
  C1: the association of a frame is the greedy pairing. The tracks are taken in their
  stored order with their predicted centroids; track \<open>ti\<close> is paired with detection
  \<open>di\<close> exactly when \<open>di\<close> has not been claimed by an earlier track, lies within
  \<open>max_distance\<close>, and is the nearest unclaimed detection, the lowest index among the
  equally near ones. A paired detection is claimed and no later track is paired with
  it; a track whose nearest unclaimed detection is beyond \<open>max_distance\<close> is left
  unmatched and claims nothing. The loop of the code applies exactly this pairing.
\<close>

theorem association_is_greedy:
  assumes "processed f s dets = (trs2, mdi, mti, lg)"
  shows "trs2 = map2 (apply_pairing f dets) (predicted f s) (pairing f s dets) \<and>
     mdi = {di. Some di \<in> set (pairing f s dets)} \<and>
     mti = {ti. ti < length (tracks s) \<and> pairing f s dets ! ti \<noteq> None} \<and>
     (\<forall>ti<length (tracks s). \<forall>di.
        pairing f s dets ! ti = Some di \<longleftrightarrow>
          di < length dets \<and> di \<notin> claimed_by (take ti (pairing f s dets)) \<and>
          distance (kf_x f (tr_kf (predicted f s ! ti))) (center_point (det_center (dets ! di)))
            \<le> max_distance s \<and>
          (\<forall>dj<length dets. dj \<notin> claimed_by (take ti (pairing f s dets)) \<longrightarrow>
             distance (kf_x f (tr_kf (predicted f s ! ti))) (center_point (det_center (dets ! di)))
               \<le> distance (kf_x f (tr_kf (predicted f s ! ti)))
                    (center_point (det_center (dets ! dj))) \<and>
             (distance (kf_x f (tr_kf (predicted f s ! ti))) (center_point (det_center (dets ! dj)))
                = distance (kf_x f (tr_kf (predicted f s ! ti)))
                    (center_point (det_center (dets ! di)))
              \<longrightarrow> di \<le> dj))) \<and>
     (\<forall>ti tj di. ti < tj \<and> tj < length (tracks s) \<and> pairing f s dets ! ti = Some di
        \<longrightarrow> pairing f s dets ! tj \<noteq> Some di)"
proof (intro conjI)
  from assms show "trs2 = map2 (apply_pairing f dets) (predicted f s) (pairing f s dets)"
    by (simp add: processed_eq)
  from assms show "mdi = {di. Some di \<in> set (pairing f s dets)}"
    by (simp add: processed_eq claimed_by_def)
  from assms show "mti = {ti. ti < length (tracks s) \<and> pairing f s dets ! ti \<noteq> None}"
    by (simp add: processed_eq matched_positions_0)
  show "\<forall>ti<length (tracks s). \<forall>di.
        pairing f s dets ! ti = Some di \<longleftrightarrow>
          di < length dets \<and> di \<notin> claimed_by (take ti (pairing f s dets)) \<and>
          distance (kf_x f (tr_kf (predicted f s ! ti))) (center_point (det_center (dets ! di)))
            \<le> max_distance s \<and>
          (\<forall>dj<length dets. dj \<notin> claimed_by (take ti (pairing f s dets)) \<longrightarrow>
             distance (kf_x f (tr_kf (predicted f s ! ti))) (center_point (det_center (dets ! di)))
               \<le> distance (kf_x f (tr_kf (predicted f s ! ti)))
                    (center_point (det_center (dets ! dj))) \<and>
             (distance (kf_x f (tr_kf (predicted f s ! ti))) (center_point (det_center (dets ! dj)))
                = distance (kf_x f (tr_kf (predicted f s ! ti)))
                    (center_point (det_center (dets ! di)))
              \<longrightarrow> di \<le> dj))"
    using pairing_Some_iff by blast
  show "\<forall>ti tj di. ti < tj \<and> tj < length (tracks s) \<and> pairing f s dets ! ti = Some di
        \<longrightarrow> pairing f s dets ! tj \<noteq> Some di"
    using pairing_not_reused by blast
qed

theorem association_is_greedy_witness:
  "pairing filterpy two_tracks frame2 = [Some 2, Some 1] \<and>
   fst (snd (processed filterpy two_tracks frame2)) = {1, 2} \<and>
   fst (snd (snd (processed filterpy two_tracks frame2))) = {0, 1} \<and>
   map tr_bbox (fst (processed filterpy two_tracks frame2)) = [(2, 0, 12, 10), (22, 0, 32, 10)] \<and>
   1 < length (tracks two_tracks) \<and> 1 < length frame2 \<and>
   2 \<in> claimed_by (take 1 (pairing filterpy two_tracks frame2)) \<and>
   1 \<notin> claimed_by (take 1 (pairing filterpy two_tracks frame2)) \<and>
   distance (kf_x filterpy (tr_kf (predicted filterpy two_tracks ! 1)))
     (center_point (det_center (frame2 ! 1))) \<le> max_distance two_tracks"
proof -
  obtain trs2 mdi mti lg where e: "processed filterpy two_tracks frame2 = (trs2, mdi, mti, lg)"
    by (metis prod_cases4)
  note g = association_is_greedy [OF e]
  have p: "pairing filterpy two_tracks frame2 = [Some 2, Some 1]" by (rule ex_pairing)
  have len: "length (tracks two_tracks) = 2" "length frame2 = 3"
    by (simp_all add: example_eval)
  from g have "mdi = {di. Some di \<in> set (pairing filterpy two_tracks frame2)}" by blast
  then have mdi: "mdi = {1, 2}" unfolding p by auto
  from g have "mti = {ti. ti < length (tracks two_tracks) \<and>
                 pairing filterpy two_tracks frame2 ! ti \<noteq> None}" by blast
  then have mti: "mti = {0, 1}" unfolding p len by (auto simp: less_Suc_eq numeral_2_eq_2)
  from g have "trs2 = map2 (apply_pairing filterpy frame2) (predicted filterpy two_tracks)
                 (pairing filterpy two_tracks frame2)" by blast
  then have bb: "map tr_bbox trs2 = [(2, 0, 12, 10), (22, 0, 32, 10)]"
    unfolding p
    by (simp add: predicted_eq apply_pairing_def track_update_def track_predict_def Track_def
        measured_centroid_def filterpy_eval example_eval)
  from g len have "pairing filterpy two_tracks frame2 ! 1 = Some 1 \<longrightarrow>
      1 \<notin> claimed_by (take 1 (pairing filterpy two_tracks frame2)) \<and>
      distance (kf_x filterpy (tr_kf (predicted filterpy two_tracks ! 1)))
        (center_point (det_center (frame2 ! 1))) \<le> max_distance two_tracks"
    by simp
  then have c: "1 \<notin> claimed_by (take 1 (pairing filterpy two_tracks frame2)) \<and>
      distance (kf_x filterpy (tr_kf (predicted filterpy two_tracks ! 1)))
        (center_point (det_center (frame2 ! 1))) \<le> max_distance two_tracks"
    using p by simp
  have d: "2 \<in> claimed_by (take 1 (pairing filterpy two_tracks frame2))"
    unfolding p by simp
  show ?thesis using p mdi mti bb c d len by (simp add: e)
qed

text \<open>
  C5, as stated, fails: the detection \<open>crowded ! 0\<close> lies within \<open>max_distance\<close> of the
  first track only, yet the first track is paired with \<open>crowded ! 1\<close>, which is nearer
  to it, and \<open>crowded ! 0\<close> stays unclaimed.
\<close>

theorem lone_track_counterexample:
  "distance (kf_x filterpy (tr_kf (predicted filterpy apart_tracks ! 0)))
     (center_point (det_center (crowded ! 0))) \<le> max_distance apart_tracks \<and>
   max_distance apart_tracks <
     distance (kf_x filterpy (tr_kf (predicted filterpy apart_tracks ! 1)))
       (center_point (det_center (crowded ! 0))) \<and>
   pairing filterpy apart_tracks crowded = [Some 1, None] \<and>
   fst (snd (processed filterpy apart_tracks crowded)) = {1}"
proof -
  have p: "pairing filterpy apart_tracks crowded = [Some 1, None]"
    by (simp add: pairing_eval filterpy_eval example_eval apart_tracks_def crowded_def Track_def
        measured_centroid_def)
  have "fst (snd (processed filterpy apart_tracks crowded)) = {1}"
    unfolding processed_eq p by simp
  moreover have "distance (kf_x filterpy (tr_kf (predicted filterpy apart_tracks ! 0)))
     (center_point (det_center (crowded ! 0))) \<le> max_distance apart_tracks"
    by (simp add: pairing_eval filterpy_eval example_eval apart_tracks_def crowded_def Track_def
        measured_centroid_def)
  moreover have "max_distance apart_tracks <
     distance (kf_x filterpy (tr_kf (predicted filterpy apart_tracks ! 1)))
       (center_point (det_center (crowded ! 0)))"
    by (simp add: pairing_eval filterpy_eval example_eval apart_tracks_def crowded_def Track_def
        measured_centroid_def not_le [symmetric])
  ultimately show ?thesis using p by simp
qed

text \<open>
  C5, amended: a detection that lies within \<open>max_distance\<close> of the predicted centroid
  of exactly one track, and that is this track's nearest detection (every other
  detection of the frame is farther from the track, or equally far with a higher
  index), is matched to that track: the track is updated with the detection's box.
  That the detection is closer to this track than to every other track follows from
  the first hypothesis.
\<close>

theorem lone_nearest_detection_matches:
  assumes "processed f s dets = (trs2, mdi, mti, lg)"
    and "ti < length (tracks s)" and "di < length dets"
    and "distance (kf_x f (tr_kf (predicted f s ! ti))) (center_point (det_center (dets ! di)))
           \<le> max_distance s"
    and "\<forall>tj<length (tracks s). tj \<noteq> ti \<longrightarrow>
           max_distance s <
             distance (kf_x f (tr_kf (predicted f s ! tj))) (center_point (det_center (dets ! di)))"
    and "\<forall>dj<length dets. dj \<noteq> di \<longrightarrow>
           distance (kf_x f (tr_kf (predicted f s ! ti))) (center_point (det_center (dets ! di)))
             < distance (kf_x f (tr_kf (predicted f s ! ti))) (center_point (det_center (dets ! dj)))
           \<or> (distance (kf_x f (tr_kf (predicted f s ! ti))) (center_point (det_center (dets ! di)))
                = distance (kf_x f (tr_kf (predicted f s ! ti)))
                    (center_point (det_center (dets ! dj))) \<and> di < dj)"
  shows "pairing f s dets ! ti = Some di \<and> ti \<in> mti \<and> di \<in> mdi \<and>
         trs2 ! ti = fst (track_update f (predicted f s ! ti) (det_bbox (dets ! di)))"
proof -
  have unclaimed: "di \<notin> claimed_by (take ti (pairing f s dets))"
  proof
    assume "di \<in> claimed_by (take ti (pairing f s dets))"
    then obtain tj where tj: "tj < ti" "pairing f s dets ! tj = Some di"
      using claimed_by_take by blast
    then have "tj < length (tracks s)" "tj \<noteq> ti" using assms(2) by auto
    moreover from this tj(2)
    have "distance (kf_x f (tr_kf (predicted f s ! tj))) (center_point (det_center (dets ! di)))
            \<le> max_distance s"
      using pairing_Some_iff [of tj s f dets di] by blast
    ultimately show False using assms(5) by fastforce
  qed
  have p: "pairing f s dets ! ti = Some di"
    unfolding pairing_Some_iff [OF assms(2)]
    using assms(3,4,6) unclaimed by (metis less_imp_le_nat order.refl less_eq_real_def less_irrefl)
  moreover have "ti \<in> mti" using processed_nth(2) [OF assms(1,2)] p by simp
  moreover have "di \<in> mdi" using processed_claimed [OF assms(1)] p assms(2) by blast
  moreover have "trs2 ! ti = fst (track_update f (predicted f s ! ti) (det_bbox (dets ! di)))"
    using processed_nth(1) [OF assms(1,2)] p by (simp add: apply_pairing_def)
  ultimately show ?thesis by blast
qed

theorem lone_nearest_detection_matches_witness:
  "0 < length (tracks apart_tracks) \<and> 1 < length moved \<and>
   distance (kf_x filterpy (tr_kf (predicted filterpy apart_tracks ! 0)))
     (center_point (det_center (moved ! 1))) \<le> max_distance apart_tracks \<and>
   max_distance apart_tracks <
     distance (kf_x filterpy (tr_kf (predicted filterpy apart_tracks ! 1)))
       (center_point (det_center (moved ! 1))) \<and>
   distance (kf_x filterpy (tr_kf (predicted filterpy apart_tracks ! 0)))
     (center_point (det_center (moved ! 1)))
     < distance (kf_x filterpy (tr_kf (predicted filterpy apart_tracks ! 0)))
         (center_point (det_center (moved ! 0))) \<and>
   pairing filterpy apart_tracks moved ! 0 = Some 1 \<and>
   0 \<in> fst (snd (snd (processed filterpy apart_tracks moved))) \<and>
   1 \<in> fst (snd (processed filterpy apart_tracks moved)) \<and>
   tr_bbox (fst (processed filterpy apart_tracks moved) ! 0) = (10, 0, 20, 10)"
proof -
  obtain trs2 mdi mti lg where e: "processed filterpy apart_tracks moved = (trs2, mdi, mti, lg)"
    by (metis prod_cases4)
  note ev = pairing_eval filterpy_eval example_eval apart_tracks_def moved_def Track_def
    measured_centroid_def
  have len: "length (tracks apart_tracks) = 2" "length moved = 2"
    by (simp_all add: apart_tracks_def moved_def)
  have h2: "0 < length (tracks apart_tracks)" and h3: "1 < length moved"
    by (simp_all add: len)
  have h4: "distance (kf_x filterpy (tr_kf (predicted filterpy apart_tracks ! 0)))
     (center_point (det_center (moved ! 1))) \<le> max_distance apart_tracks"
    by (simp add: ev)
  have far: "max_distance apart_tracks <
     distance (kf_x filterpy (tr_kf (predicted filterpy apart_tracks ! 1)))
       (center_point (det_center (moved ! 1)))"
    by (simp add: ev not_le [symmetric])
  have h5: "\<forall>tj<length (tracks apart_tracks). tj \<noteq> 0 \<longrightarrow>
     max_distance apart_tracks <
       distance (kf_x filterpy (tr_kf (predicted filterpy apart_tracks ! tj)))
         (center_point (det_center (moved ! 1)))"
    using far unfolding len by (auto simp: less_Suc_eq numeral_2_eq_2)
  have near: "distance (kf_x filterpy (tr_kf (predicted filterpy apart_tracks ! 0)))
     (center_point (det_center (moved ! 1)))
     < distance (kf_x filterpy (tr_kf (predicted filterpy apart_tracks ! 0)))
         (center_point (det_center (moved ! 0)))"
    by (simp add: ev)
  have h6: "\<forall>dj<length moved. dj \<noteq> 1 \<longrightarrow>
     distance (kf_x filterpy (tr_kf (predicted filterpy apart_tracks ! 0)))
       (center_point (det_center (moved ! 1)))
       < distance (kf_x filterpy (tr_kf (predicted filterpy apart_tracks ! 0)))
           (center_point (det_center (moved ! dj)))
     \<or> (distance (kf_x filterpy (tr_kf (predicted filterpy apart_tracks ! 0)))
           (center_point (det_center (moved ! 1)))
         = distance (kf_x filterpy (tr_kf (predicted filterpy apart_tracks ! 0)))
             (center_point (det_center (moved ! dj))) \<and> 1 < dj)"
    using near unfolding len by (auto simp: less_Suc_eq numeral_2_eq_2)
  from lone_nearest_detection_matches [OF e h2 h3 h4 h5 h6]
  have "pairing filterpy apart_tracks moved ! 0 = Some 1 \<and> 0 \<in> mti \<and> 1 \<in> mdi \<and>
        trs2 ! 0 = fst (track_update filterpy (predicted filterpy apart_tracks ! 0)
                          (det_bbox (moved ! 1)))" .
  moreover have "tr_bbox (fst (track_update filterpy (predicted filterpy apart_tracks ! 0)
                          (det_bbox (moved ! 1)))) = (10, 0, 20, 10)"
    by (simp add: ev track_update_def)
  ultimately show ?thesis using h2 h3 h4 far near by (simp add: e)
qed

section \<open>New tracks\<close>

lemma spawn_eq:
  "spawn f m xs c =
     (c + int (length (filter (\<lambda>(di, det). di \<notin> m) xs)),
      map (\<lambda>(k, det). Track f (det_bbox det) (c + int k))
        (enumerate 0 (map snd (filter (\<lambda>(di, det). di \<notin> m) xs))))"
proof (induction xs arbitrary: c)
  case Nil
  then show ?case by simp
next
  case (Cons x xs)
  obtain di det where x: "x = (di, det)" by (cases x)
  show ?case
  proof (cases "di \<in> m")
    case True
    then show ?thesis by (simp add: x Cons.IH)
  next
    case False
    have shift: "map (\<lambda>(k, det). Track f (det_bbox det) (c + 1 + int k)) (enumerate 0 ys) =
                 map (\<lambda>(k, det). Track f (det_bbox det) (c + int k)) (enumerate (Suc 0) ys)"
      for ys :: "detection list"
      by (simp add: enumerate_Suc_eq [of 0] comp_def case_prod_beta add.assoc)
    show ?thesis using False by (simp add: x Cons.IH shift)
  qed
qed

lemma created_eq:
  assumes "processed f s dets = (trs2, mdi, mti, lg)"
  shows "created f c s dets =
           map (\<lambda>(k, det). Track f (det_bbox det) (c + int k)) (enumerate 0 (unclaimed mdi dets))"
  using assms by (simp add: created_def spawn_eq unclaimed_def)

lemma created_fields:
  assumes "processed f s dets = (trs2, mdi, mti, lg)"
  shows "map tr_bbox (created f c s dets) = map det_bbox (unclaimed mdi dets)"
    and "map tr_id (created f c s dets) = map (\<lambda>k. c + int k) [0..<length (unclaimed mdi dets)]"
    and "map missed_frames (created f c s dets) = replicate (length (unclaimed mdi dets)) 0"
    and "map hits (created f c s dets) = replicate (length (unclaimed mdi dets)) 1"
    and "length (created f c s dets) = length (unclaimed mdi dets)"
proof -
  let ?us = "unclaimed mdi dets"
  note e = created_eq [OF assms]
  show "map tr_bbox (created f c s dets) = map det_bbox ?us"
    unfolding e by (rule nth_equalityI) (simp_all add: Track_def nth_enumerate_eq)
  show "map tr_id (created f c s dets) = map (\<lambda>k. c + int k) [0..<length ?us]"
    unfolding e by (rule nth_equalityI) (simp_all add: Track_def nth_enumerate_eq)
  show "map missed_frames (created f c s dets) = replicate (length ?us) 0"
    unfolding e by (rule nth_equalityI) (simp_all add: Track_def nth_enumerate_eq)
  show "map hits (created f c s dets) = replicate (length ?us) 1"
    unfolding e by (rule nth_equalityI) (simp_all add: Track_def nth_enumerate_eq)
  show "length (created f c s dets) = length ?us"
    unfolding e by simp
qed

lemma update_eq:
  assumes "processed f s dets = (trs2, mdi, mti, lg)"
  shows "update f c s dets =
     (c + int (length (created f c s dets)),
      s\<lparr>tracks := prune (max_missed s) (trs2 @ created f c s dets)\<rparr>,
      attach_conf dets (map to_result (prune (max_missed s) (trs2 @ created f c s dets))),
      lg)"
  using assms by (simp add: update_def created_def spawn_eq Let_def)

lemma unclaimed_nth:
  assumes "di < length dets" "di \<notin> m"
  shows "dets ! di \<in> set (unclaimed m dets)"
proof -
  have "(di, dets ! di) \<in> set (enumerate 0 dets)"
    using assms(1) by (simp add: in_set_enumerate_eq)
  then have "(di, dets ! di) \<in> set (filter (\<lambda>(di, det). di \<notin> m) (enumerate 0 dets))"
    using assms(2) by simp
  then show ?thesis unfolding unclaimed_def by force
qed

section \<open>What a frame does to one track\<close>

lemma track_update_id [simp]: "tr_id (fst (track_update f t b)) = tr_id t"
  by (simp add: track_update_def split: outcome.splits)

lemma track_update_Raised:
  assumes "kf_update f (tr_kf t) (measured_centroid b) = Raised k"
  shows "visible (fst (track_update f t b)) = visible t"
    and "snd (track_update f t b) = [UpdateFailed (tr_id t)]"
    and "tr_kf (fst (track_update f t b)) = k"
  using assms by (simp_all add: track_update_def visible_def)

lemma track_update_Returned:
  assumes "kf_update f (tr_kf t) (measured_centroid b) = Returned k"
  shows "visible (fst (track_update f t b)) = (tr_id t, b, 0, hits t + 1)"
    and "snd (track_update f t b) = []"
    and "tr_kf (fst (track_update f t b)) = k"
  using assms by (simp_all add: track_update_def visible_def)

lemma track_update_bbox:
  "tr_bbox (fst (track_update f t b)) = tr_bbox t \<or>
   (\<exists>k. kf_update f (tr_kf t) (measured_centroid b) = Returned k \<and>
        tr_bbox (fst (track_update f t b)) = b)"
  by (cases "kf_update f (tr_kf t) (measured_centroid b)") (simp_all add: track_update_def)

lemma apply_pairing_None [simp]:
  "visible (apply_pairing f dets t None) = (tr_id t, tr_bbox t, missed_frames t + 1, hits t)"
  by (simp add: apply_pairing_def visible_def)

lemma apply_pairing_id [simp]: "tr_id (apply_pairing f dets t p) = tr_id t"
  by (cases p) (simp_all add: apply_pairing_def)

lemma visible_predicted:
  assumes "ti < length (tracks s)"
  shows "visible (predicted f s ! ti) = visible (tracks s ! ti)"
  using predicted_fields [OF assms] by (simp add: visible_def)

lemma update_tracks:
  assumes "update f c s dets = (c', s', results, lg)"
    and "processed f s dets = (trs2, mdi, mti, lg2)"
  shows "tracks s' = prune (max_missed s) (trs2 @ created f c s dets)"
    and "c' = c + int (length (created f c s dets))"
    and "lg = lg2"
    and "max_missed s' = max_missed s" and "max_distance s' = max_distance s"
  using assms(1) unfolding update_eq [OF assms(2)] by auto

section \<open>The bounding box of a track\<close>

text \<open>
  C6: after a frame the old tracks, in their order, are followed by the new ones and
  the dead ones are dropped. A track that is not matched in the frame keeps its id and
  its box. The box of an old track changes only when the track is matched and the
  measurement update of the filter returns, and then it is the box of the matched
  detection; the box of a new track is the box of the detection it is created from.
  No box is computed from the state of the filter.
\<close>

theorem unmatched_keeps_bbox:
  assumes "update f c s dets = (c', s', results, lg)"
    and "processed f s dets = (trs2, mdi, mti, lg2)"
  shows "length trs2 = length (tracks s) \<and>
     tracks s' = prune (max_missed s) (trs2 @ created f c s dets) \<and>
     (\<forall>ti<length (tracks s).
        tr_id (trs2 ! ti) = tr_id (tracks s ! ti) \<and>
        (ti \<notin> mti \<longrightarrow> tr_bbox (trs2 ! ti) = tr_bbox (tracks s ! ti)) \<and>
        (tr_bbox (trs2 ! ti) \<noteq> tr_bbox (tracks s ! ti) \<longrightarrow>
           (\<exists>di k. di < length dets \<and> pairing f s dets ! ti = Some di \<and>
              kf_update f (tr_kf (predicted f s ! ti)) (measured_centroid (det_bbox (dets ! di)))
                = Returned k \<and>
              tr_bbox (trs2 ! ti) = det_bbox (dets ! di)))) \<and>
     map tr_bbox (created f c s dets) = map det_bbox (unclaimed mdi dets)"
proof (intro conjI allI impI)
  show "length trs2 = length (tracks s)" using assms(2) by (auto simp: processed_eq)
  show "tracks s' = prune (max_missed s) (trs2 @ created f c s dets)"
    by (rule update_tracks(1) [OF assms])
  show "map tr_bbox (created f c s dets) = map det_bbox (unclaimed mdi dets)"
    by (rule created_fields(1) [OF assms(2)])
next
  fix ti assume ti: "ti < length (tracks s)"
  note nth = processed_nth [OF assms(2) ti]
  show "tr_id (trs2 ! ti) = tr_id (tracks s ! ti)"
    using nth(1) predicted_fields(1) [OF ti] by simp
  {
    assume "ti \<notin> mti"
    then have "pairing f s dets ! ti = None" using nth(2) by simp
    then show "tr_bbox (trs2 ! ti) = tr_bbox (tracks s ! ti)"
      using nth(1) predicted_fields(2) [OF ti] by (simp add: apply_pairing_def)
  }
  {
    assume changed: "tr_bbox (trs2 ! ti) \<noteq> tr_bbox (tracks s ! ti)"
    show "\<exists>di k. di < length dets \<and> pairing f s dets ! ti = Some di \<and>
            kf_update f (tr_kf (predicted f s ! ti)) (measured_centroid (det_bbox (dets ! di)))
              = Returned k \<and>
            tr_bbox (trs2 ! ti) = det_bbox (dets ! di)"
    proof (cases "pairing f s dets ! ti")
      case None
      then have "tr_bbox (trs2 ! ti) = tr_bbox (tracks s ! ti)"
        using nth(1) predicted_fields(2) [OF ti] by (simp add: apply_pairing_def)
      with changed show ?thesis by simp
    next
      case (Some di)
      then have di: "di < length dets" using pairing_Some_iff [OF ti] by blast
      have t2: "trs2 ! ti = fst (track_update f (predicted f s ! ti) (det_bbox (dets ! di)))"
        using nth(1) Some by (simp add: apply_pairing_def)
      from track_update_bbox [of f "predicted f s ! ti" "det_bbox (dets ! di)"] changed
      obtain k where "kf_update f (tr_kf (predicted f s ! ti))
                        (measured_centroid (det_bbox (dets ! di))) = Returned k"
        and "tr_bbox (trs2 ! ti) = det_bbox (dets ! di)"
        unfolding t2 [symmetric] predicted_fields(2) [OF ti] by blast
      with Some di show ?thesis by blast
    qed
  }
qed

theorem unmatched_keeps_bbox_witness:
  "1 < length (tracks two_tracks) \<and>
   1 \<notin> fst (snd (snd (processed filterpy two_tracks left_only))) \<and>
   tr_bbox (fst (processed filterpy two_tracks left_only) ! 1) = tr_bbox (tracks two_tracks ! 1) \<and>
   tr_bbox (tracks two_tracks ! 1) = (20, 0, 30, 10) \<and>
   map tr_bbox (tracks (fst (snd (update filterpy 3 two_tracks left_only)))) =
     [(2, 0, 12, 10), (20, 0, 30, 10)]"
proof -
  obtain c' s' results lg where e1: "update filterpy 3 two_tracks left_only = (c', s', results, lg)"
    by (metis prod_cases4)
  obtain trs2 mdi mti lg2 where e2: "processed filterpy two_tracks left_only = (trs2, mdi, mti, lg2)"
    by (metis prod_cases4)
  note g = unmatched_keeps_bbox [OF e1 e2]
  have len: "1 < length (tracks two_tracks)" by (simp add: two_tracks_def)
  have "mti = matched_positions 0 (pairing filterpy two_tracks left_only)"
    using e2 by (auto simp: processed_eq)
  then have m: "1 \<notin> mti" unfolding left_only_pairing by simp
  from g len m have b: "tr_bbox (trs2 ! 1) = tr_bbox (tracks two_tracks ! 1)" by blast
  have o: "tr_bbox (tracks two_tracks ! 1) = (20, 0, 30, 10)"
    by (simp add: two_tracks_def Track_def)
  have "map tr_bbox (tracks (fst (snd (update filterpy 3 two_tracks left_only)))) =
     [(2, 0, 12, 10), (20, 0, 30, 10)]"
    by (simp add: frame_eval filterpy_eval example_eval left_only_def)
  then show ?thesis using len m b o by (simp add: e2)
qed

section \<open>Frames without detections\<close>

lemma greedy_pairing_no_detections:
  "greedy_pairing md [] cs claimed = replicate (length cs) None"
  by (induction cs) (simp_all add: nearest_unclaimed_def)

lemma pairing_no_detections: "pairing f s [] = replicate (length (tracks s)) None"
  by (simp add: pairing_def greedy_pairing_no_detections)

lemma map2_replicate: "map2 g xs (replicate (length xs) y) = map (\<lambda>x. g x y) xs"
  by (induction xs) simp_all

lemma processed_no_detections:
  "processed f s [] =
     (map (\<lambda>t. apply_pairing f [] t None) (predicted f s), {}, {},
      snd (predict_all f (tracks s)))"
proof -
  have n: "length (tracks s) = length (predicted f s)" by simp
  show ?thesis
    unfolding processed_eq pairing_no_detections n map2_replicate
    by (simp add: matched_positions_eq claimed_by_def pairing_log_def)
qed

lemma update_no_detections:
  "update f c s [] =
     (c, s\<lparr>tracks := prune (max_missed s) (map (\<lambda>t. apply_pairing f [] t None) (predicted f s))\<rparr>,
      map to_result (prune (max_missed s) (map (\<lambda>t. apply_pairing f [] t None) (predicted f s))),
      snd (predict_all f (tracks s)))"
proof -
  have "created f c s [] = []"
    by (simp add: created_def processed_no_detections)
  then show ?thesis
    unfolding update_eq [OF processed_no_detections] by simp
qed

lemma visible_prune:
  "map visible (prune mm trs) = filter (\<lambda>(i, b, m, h). int m \<le> mm) (map visible trs)"
  by (induction trs) (simp_all add: prune_def alive_def visible_def)

lemma visible_missed:
  "map visible (map (\<lambda>t. apply_pairing f [] t None) (predicted f s)) =
     map (\<lambda>(i, b, m, h). (i, b, Suc m, h)) (map visible (tracks s))"
  by (rule nth_equalityI) (simp_all add: visible_def predicted_fields apply_pairing_def)

lemma aged_one:
  "filter (\<lambda>(i, b, m, h). int m \<le> mm) (map (\<lambda>(i, b, m, h). (i, b, Suc m, h)) V) = aged (Suc 0) mm V"
  by (induction V) (auto simp: aged_def)

lemma aged_aged: "aged (Suc 0) mm (aged n mm V) = aged (Suc n) mm V"
  by (induction V) (auto simp: aged_def)

lemma visible_no_detections:
  assumes "update f c s [] = (c', s', results, lg)"
  shows "map visible (tracks s') = aged (Suc 0) (max_missed s) (map visible (tracks s))"
    and "c' = c" and "max_missed s' = max_missed s" and "results = map to_result (tracks s')"
  using assms unfolding update_no_detections
  by (auto simp: visible_prune visible_missed aged_one simp del: map_map)

lemma empty_frames_aged:
  assumes "empty_frames f (Suc n) (c, s) = (cn, sn, rn)"
  shows "map visible (tracks sn) = aged (Suc n) (max_missed s) (map visible (tracks s)) \<and>
         cn = c \<and> max_missed sn = max_missed s \<and> rn = map to_result (tracks sn)"
  using assms
proof (induction n arbitrary: cn sn rn)
  case 0
  then obtain lg where "update f c s [] = (cn, sn, rn, lg)"
    by (auto split: prod.splits)
  from visible_no_detections [OF this] show ?case by simp
next
  case (Suc n)
  obtain c1 s1 r1 where e1: "empty_frames f (Suc n) (c, s) = (c1, s1, r1)"
    by (metis prod_cases3)
  with Suc.prems obtain lg where u: "update f c1 s1 [] = (cn, sn, rn, lg)"
    by (auto split: prod.splits)
  from Suc.IH [OF e1] visible_no_detections [OF u] show ?case
    by (simp add: aged_aged)
qed

lemma update_alive:
  assumes "update f c s dets = (c', s', results, lg)"
  shows "\<forall>t\<in>set (tracks s'). int (missed_frames t) \<le> max_missed s"
proof -
  obtain trs2 mdi mti lg2 where e: "processed f s dets = (trs2, mdi, mti, lg2)"
    by (metis prod_cases4)
  show ?thesis
    unfolding update_tracks(1) [OF assms e] by (auto simp: prune_def alive_def)
qed

lemma aged_empty:
  assumes "mm < int n"
  shows "aged n mm V = []"
  using assms by (auto simp: aged_def filter_empty_conv)

section \<open>The budget of missed frames\<close>

text \<open>
  C4. In any frame, a track that is not matched has its \<open>missed_frames\<close> advanced by
  one and keeps its id, box and hits; it is among the tracks after the frame exactly
  when the advanced counter is at most \<open>max_missed\<close>; the result list has one record
  per track after the frame, in order, and none of these tracks exceeds the budget.
  After \<open>n + 1\<close> consecutive frames without detections the tracks left are exactly
  those whose counter plus \<open>n + 1\<close> is at most \<open>max_missed\<close>, each reported in the
  result list of that frame. Hence after more than \<open>max_missed\<close> such frames no track
  and no record is left (for a state in which no track exceeds the budget, as in every
  state a frame leaves).
\<close>

theorem missed_frame_budget:
  "(update f c s dets = (c', s', results, lg) \<and> processed f s dets = (trs2, mdi, mti, lg2) \<longrightarrow>
      map res_id results = map tr_id (tracks s') \<and>
      (\<forall>t\<in>set (tracks s'). int (missed_frames t) \<le> max_missed s) \<and>
      (\<forall>ti<length (tracks s). ti \<notin> mti \<longrightarrow>
         visible (trs2 ! ti) =
           (tr_id (tracks s ! ti), tr_bbox (tracks s ! ti), missed_frames (tracks s ! ti) + 1,
            hits (tracks s ! ti)) \<and>
         (trs2 ! ti \<in> set (tracks s') \<longleftrightarrow>
            int (missed_frames (tracks s ! ti)) + 1 \<le> max_missed s))) \<and>
   (empty_frames f (Suc n) (c, s) = (cn, sn, rn) \<longrightarrow>
      map visible (tracks sn) = aged (Suc n) (max_missed s) (map visible (tracks s)) \<and>
      rn = map to_result (tracks sn)) \<and>
   (empty_frames f k (c, s) = (ck, sk, rk) \<and> max_missed s < int k \<and>
    (\<forall>t\<in>set (tracks s). int (missed_frames t) \<le> max_missed s) \<longrightarrow>
      tracks sk = [] \<and> rk = [])"
proof (intro conjI impI)
  assume a: "update f c s dets = (c', s', results, lg) \<and>
             processed f s dets = (trs2, mdi, mti, lg2)"
  then have u: "update f c s dets = (c', s', results, lg)"
    and p: "processed f s dets = (trs2, mdi, mti, lg2)" by simp_all
  show "map res_id results = map tr_id (tracks s')"
    by (rule update_result_fields(2) [OF u])
  show "\<forall>t\<in>set (tracks s'). int (missed_frames t) \<le> max_missed s"
    by (rule update_alive [OF u])
  show "\<forall>ti<length (tracks s). ti \<notin> mti \<longrightarrow>
         visible (trs2 ! ti) =
           (tr_id (tracks s ! ti), tr_bbox (tracks s ! ti), missed_frames (tracks s ! ti) + 1,
            hits (tracks s ! ti)) \<and>
         (trs2 ! ti \<in> set (tracks s') \<longleftrightarrow>
            int (missed_frames (tracks s ! ti)) + 1 \<le> max_missed s)"
  proof (intro allI impI)
    fix ti assume ti: "ti < length (tracks s)" and un: "ti \<notin> mti"
    note nth = processed_nth [OF p ti]
    from un nth(2) have none: "pairing f s dets ! ti = None" by simp
    have v: "visible (trs2 ! ti) =
           (tr_id (tracks s ! ti), tr_bbox (tracks s ! ti), missed_frames (tracks s ! ti) + 1,
            hits (tracks s ! ti))"
      unfolding nth(1) none using predicted_fields [OF ti, of f] by simp
    have mem: "trs2 ! ti \<in> set trs2" using nth(3) ti by simp
    have "trs2 ! ti \<in> set (tracks s') \<longleftrightarrow> alive (max_missed s) (trs2 ! ti)"
      unfolding update_tracks(1) [OF u p] using mem by (auto simp: prune_def)
    also have "\<dots> \<longleftrightarrow> int (missed_frames (tracks s ! ti)) + 1 \<le> max_missed s"
      using v by (simp add: alive_def visible_def add.commute)
    finally show "visible (trs2 ! ti) =
           (tr_id (tracks s ! ti), tr_bbox (tracks s ! ti), missed_frames (tracks s ! ti) + 1,
            hits (tracks s ! ti)) \<and>
         (trs2 ! ti \<in> set (tracks s') \<longleftrightarrow>
            int (missed_frames (tracks s ! ti)) + 1 \<le> max_missed s)"
      using v by simp
  qed
next
  assume e: "empty_frames f (Suc n) (c, s) = (cn, sn, rn)"
  from empty_frames_aged [OF e]
  show "map visible (tracks sn) = aged (Suc n) (max_missed s) (map visible (tracks s))"
    and "rn = map to_result (tracks sn)" by simp_all
next
  assume a: "empty_frames f k (c, s) = (ck, sk, rk) \<and> max_missed s < int k \<and>
    (\<forall>t\<in>set (tracks s). int (missed_frames t) \<le> max_missed s)"
  have "tracks sk = [] \<and> rk = []"
  proof (cases k)
    case 0
    with a have sk: "sk = s" and rk: "rk = []" and neg: "max_missed s < 0" by auto
    have "tracks s = []"
    proof (cases "tracks s")
      case Nil
      then show ?thesis .
    next
      case (Cons t ts)
      then have "int (missed_frames t) \<le> max_missed s" using a by simp
      with neg show ?thesis by simp
    qed
    with sk rk show ?thesis by simp
  next
    case (Suc n)
    with a have e: "empty_frames f (Suc n) (c, s) = (ck, sk, rk)"
      and lt: "max_missed s < int (Suc n)" by simp_all
    from empty_frames_aged [OF e] aged_empty [OF lt]
    show ?thesis by simp
  qed
  then show "tracks sk = []" and "rk = []" by simp_all
qed

theorem missed_frame_budget_witness:
  "1 < length (tracks two_tracks) \<and>
   1 \<notin> fst (snd (snd (processed filterpy two_tracks left_only))) \<and>
   visible (fst (processed filterpy two_tracks left_only) ! 1) = (2, (20, 0, 30, 10), 1, 1) \<and>
   fst (processed filterpy two_tracks left_only) ! 1
     \<in> set (tracks (fst (snd (update filterpy 3 two_tracks left_only)))) \<and>
   map visible (tracks (fst (snd (empty_frames filterpy 10 (3, two_tracks))))) =
     [(1, (0, 0, 10, 10), 10, 1), (2, (20, 0, 30, 10), 10, 1)] \<and>
   max_missed two_tracks < int 11 \<and>
   map missed_frames (tracks two_tracks) = [0, 0] \<and>
   tracks (fst (snd (empty_frames filterpy 11 (3, two_tracks)))) = [] \<and>
   snd (snd (empty_frames filterpy 11 (3, two_tracks))) = []"
proof -
  obtain c' s' results lg where e1: "update filterpy 3 two_tracks left_only = (c', s', results, lg)"
    by (metis prod_cases4)
  obtain trs2 mdi mti lg2 where e2: "processed filterpy two_tracks left_only = (trs2, mdi, mti, lg2)"
    by (metis prod_cases4)
  obtain cn sn rn where e3: "empty_frames filterpy 10 (3, two_tracks) = (cn, sn, rn)"
    by (metis prod_cases3)
  have "(10::nat) = Suc 9" by simp
  with e3 have e3s: "empty_frames filterpy (Suc 9) (3, two_tracks) = (cn, sn, rn)"
    by (simp only:)
  obtain ck sk rk where e4: "empty_frames filterpy 11 (3, two_tracks) = (ck, sk, rk)"
    by (metis prod_cases3)
  note g = missed_frame_budget [where f = filterpy and c = 3 and s = two_tracks
      and dets = left_only and c' = c' and s' = s' and results = results and lg = lg
      and ?trs2.0 = trs2 and mdi = mdi and mti = mti and ?lg2.0 = lg2 and n = 9 and cn = cn
      and sn = sn and rn = rn and k = 11 and ck = ck and sk = sk and rk = rk]
  have len: "1 < length (tracks two_tracks)" by (simp add: two_tracks_def)
  have "mti = matched_positions 0 (pairing filterpy two_tracks left_only)"
    using e2 by (auto simp: processed_eq)
  then have m: "1 \<notin> mti" unfolding left_only_pairing by simp
  have mm: "max_missed two_tracks < int 11" by (simp add: two_tracks_def)
  have al: "\<forall>t\<in>set (tracks two_tracks). int (missed_frames t) \<le> max_missed two_tracks"
    by (simp add: two_tracks_def Track_def)
  from g e1 e2 len m
  have a: "visible (trs2 ! 1) =
             (tr_id (tracks two_tracks ! 1), tr_bbox (tracks two_tracks ! 1),
              missed_frames (tracks two_tracks ! 1) + 1, hits (tracks two_tracks ! 1))"
    and b: "trs2 ! 1 \<in> set (tracks s') \<longleftrightarrow>
              int (missed_frames (tracks two_tracks ! 1)) + 1 \<le> max_missed two_tracks"
    by blast+
  from a have a': "visible (trs2 ! 1) = (2, (20, 0, 30, 10), 1, 1)"
    by (simp add: two_tracks_def Track_def)
  from b have b': "trs2 ! 1 \<in> set (tracks s')" by (simp add: two_tracks_def Track_def)
  from g e3s have "map visible (tracks sn) =
      aged (Suc 9) (max_missed two_tracks) (map visible (tracks two_tracks))" by blast
  then have v: "map visible (tracks sn) = [(1, (0, 0, 10, 10), 10, 1), (2, (20, 0, 30, 10), 10, 1)]"
    by (simp add: aged_def two_tracks_def Track_def visible_def)
  from g e4 mm al have z: "tracks sk = [] \<and> rk = []" by blast
  have ms: "map missed_frames (tracks two_tracks) = [0, 0]"
    by (simp add: two_tracks_def Track_def)
  show ?thesis
    using len m a' b' v mm ms z by (simp add: e1 e2 e3 e4)
qed

section \<open>Failures of the filter\<close>

lemma processed_log:
  assumes "processed f s dets = (trs2, mdi, mti, lg)"
  shows "lg = concat (map (\<lambda>t. snd (track_predict f t)) (tracks s)) @
              concat (map2 (pairing_log f dets) (predicted f s) (pairing f s dets))"
  using assms by (auto simp: processed_eq predict_all_eq)

lemma predict_failure_logged:
  assumes "processed f s dets = (trs2, mdi, mti, lg)" and "ti < length (tracks s)"
    and "kf_predict f (tr_kf (tracks s ! ti)) = Raised k"
  shows "PredictFailed (tr_id (tracks s ! ti)) \<in> set lg"
    and "tr_kf (predicted f s ! ti) = k"
proof -
  have "snd (track_predict f (tracks s ! ti)) = [PredictFailed (tr_id (tracks s ! ti))]"
    using assms(3) by (simp add: track_predict_def)
  moreover have "tracks s ! ti \<in> set (tracks s)" using assms(2) by simp
  ultimately have "PredictFailed (tr_id (tracks s ! ti))
      \<in> set (concat (map (\<lambda>t. snd (track_predict f t)) (tracks s)))"
    by (auto intro!: bexI [where x = "tracks s ! ti"])
  then show "PredictFailed (tr_id (tracks s ! ti)) \<in> set lg"
    unfolding processed_log [OF assms(1)] by simp
  show "tr_kf (predicted f s ! ti) = k"
    using assms(2,3) by (simp add: predicted_eq track_predict_def)
qed

lemma update_failure_logged:
  assumes "processed f s dets = (trs2, mdi, mti, lg)" and "ti < length (tracks s)"
    and "pairing f s dets ! ti = Some di"
    and "kf_update f (tr_kf (predicted f s ! ti)) (measured_centroid (det_bbox (dets ! di)))
           = Raised k"
  shows "UpdateFailed (tr_id (tracks s ! ti)) \<in> set lg"
proof -
  let ?L = "map2 (pairing_log f dets) (predicted f s) (pairing f s dets)"
  have "?L ! ti = pairing_log f dets (predicted f s ! ti) (pairing f s dets ! ti)"
    using assms(2) by simp
  also have "\<dots> = [UpdateFailed (tr_id (tracks s ! ti))]"
    using assms(3) track_update_Raised(2) [OF assms(4)] predicted_fields(1) [OF assms(2)]
    by (simp add: pairing_log_def)
  finally have "?L ! ti = [UpdateFailed (tr_id (tracks s ! ti))]" .
  moreover have "ti < length ?L" using assms(2) by simp
  ultimately have "[UpdateFailed (tr_id (tracks s ! ti))] \<in> set ?L"
    by (metis nth_mem)
  then have "\<exists>l\<in>set ?L. UpdateFailed (tr_id (tracks s ! ti)) \<in> set l"
    by (intro bexI [where x = "[UpdateFailed (tr_id (tracks s ! ti))]"]) simp_all
  then have "UpdateFailed (tr_id (tracks s ! ti)) \<in> set (concat ?L)"
    unfolding set_concat by blast
  then show ?thesis unfolding processed_log [OF assms(1)] by simp
qed

text \<open>
  C7, as stated, fails for a failing \<open>predict\<close>: the exception is caught and logged, but
  the track then goes through the association like every other track. With a
  \<open>predict\<close> that raises, a frame without detections advances \<open>missed_frames\<close> of both
  tracks, and a frame with a detection next to the first track replaces its box and
  advances its hits.
\<close>

theorem predict_failure_counterexample:
  "kf_predict predict_raises (tr_kf (tracks two_tracks ! 0)) = Raised (tr_kf (tracks two_tracks ! 0)) \<and>
   map visible (tracks two_tracks) = [(1, (0, 0, 10, 10), 0, 1), (2, (20, 0, 30, 10), 0, 1)] \<and>
   map visible (tracks (fst (snd (update predict_raises 3 two_tracks [])))) =
     [(1, (0, 0, 10, 10), 1, 1), (2, (20, 0, 30, 10), 1, 1)] \<and>
   snd (snd (snd (update predict_raises 3 two_tracks []))) = [PredictFailed 1, PredictFailed 2] \<and>
   map visible (tracks (fst (snd (update predict_raises 3 two_tracks left_only)))) =
     [(1, (2, 0, 12, 10), 0, 2), (2, (20, 0, 30, 10), 1, 1)] \<and>
   snd (snd (snd (update predict_raises 3 two_tracks left_only))) =
     [PredictFailed 1, PredictFailed 2]"
  by (simp add: frame_eval filterpy_eval failing_eval example_eval left_only_def visible_def)

text \<open>
  C7, amended. A failure of the filter never leaves the frame: the frame returns its
  results together with the diagnostics. If the measurement update fails for a matched
  track, the id, box, \<open>missed_frames\<close> and hits of the track are left as they were, the
  detection stays claimed, and the diagnostic naming the track is logged. If the
  prediction fails for a track, the diagnostic naming the track is logged, the
  observable fields are untouched by the prediction, and the track goes through the
  association like every other track, with the filter state the failed call left.
  Every track of the frame is processed and the frame ends as a frame without failure
  does.
\<close>

theorem filter_failure_contained:
  assumes "processed f s dets = (trs2, mdi, mti, lg)" and "ti < length (tracks s)"
  shows "length trs2 = length (tracks s) \<and>
     trs2 ! ti = apply_pairing f dets (predicted f s ! ti) (pairing f s dets ! ti) \<and>
     (\<forall>k. kf_predict f (tr_kf (tracks s ! ti)) = Raised k \<longrightarrow>
        PredictFailed (tr_id (tracks s ! ti)) \<in> set lg \<and>
        tr_kf (predicted f s ! ti) = k \<and>
        visible (predicted f s ! ti) = visible (tracks s ! ti)) \<and>
     (\<forall>di k. pairing f s dets ! ti = Some di \<and>
        kf_update f (tr_kf (predicted f s ! ti)) (measured_centroid (det_bbox (dets ! di)))
          = Raised k \<longrightarrow>
        UpdateFailed (tr_id (tracks s ! ti)) \<in> set lg \<and>
        visible (trs2 ! ti) = visible (tracks s ! ti) \<and>
        tr_kf (trs2 ! ti) = k \<and> ti \<in> mti \<and> di \<in> mdi) \<and>
     update f c s dets =
       (c + int (length (created f c s dets)),
        s\<lparr>tracks := prune (max_missed s) (trs2 @ created f c s dets)\<rparr>,
        attach_conf dets (map to_result (prune (max_missed s) (trs2 @ created f c s dets))),
        lg)"
proof (intro conjI allI impI)
  note nth = processed_nth [OF assms]
  show "length trs2 = length (tracks s)" by (rule nth(3))
  show "trs2 ! ti = apply_pairing f dets (predicted f s ! ti) (pairing f s dets ! ti)"
    by (rule nth(1))
  show "update f c s dets =
       (c + int (length (created f c s dets)),
        s\<lparr>tracks := prune (max_missed s) (trs2 @ created f c s dets)\<rparr>,
        attach_conf dets (map to_result (prune (max_missed s) (trs2 @ created f c s dets))),
        lg)"
    by (rule update_eq [OF assms(1)])
next
  fix k assume r: "kf_predict f (tr_kf (tracks s ! ti)) = Raised k"
  show "PredictFailed (tr_id (tracks s ! ti)) \<in> set lg"
    by (rule predict_failure_logged(1) [OF assms r])
  show "tr_kf (predicted f s ! ti) = k"
    by (rule predict_failure_logged(2) [OF assms r])
  show "visible (predicted f s ! ti) = visible (tracks s ! ti)"
    by (rule visible_predicted [OF assms(2)])
next
  fix di k
  assume a: "pairing f s dets ! ti = Some di \<and>
        kf_update f (tr_kf (predicted f s ! ti)) (measured_centroid (det_bbox (dets ! di)))
          = Raised k"
  then have p: "pairing f s dets ! ti = Some di"
    and r: "kf_update f (tr_kf (predicted f s ! ti)) (measured_centroid (det_bbox (dets ! di)))
              = Raised k" by simp_all
  note nth = processed_nth [OF assms]
  have t2: "trs2 ! ti = fst (track_update f (predicted f s ! ti) (det_bbox (dets ! di)))"
    using nth(1) p by (simp add: apply_pairing_def)
  show "UpdateFailed (tr_id (tracks s ! ti)) \<in> set lg"
    by (rule update_failure_logged [OF assms p r])
  show "visible (trs2 ! ti) = visible (tracks s ! ti)"
    unfolding t2 track_update_Raised(1) [OF r] by (rule visible_predicted [OF assms(2)])
  show "tr_kf (trs2 ! ti) = k"
    unfolding t2 by (rule track_update_Raised(3) [OF r])
  show "ti \<in> mti" using nth(2) p by simp
  show "di \<in> mdi" using processed_claimed [OF assms(1)] p assms(2) by blast
qed

theorem filter_failure_contained_witness:
  "0 < length (tracks two_tracks) \<and>
   kf_predict predict_raises (tr_kf (tracks two_tracks ! 0)) = Raised (tr_kf (tracks two_tracks ! 0)) \<and>
   PredictFailed 1 \<in> set (snd (snd (snd (processed predict_raises two_tracks left_only)))) \<and>
   pairing update_raises two_tracks left_only ! 0 = Some 0 \<and>
   kf_update update_raises (tr_kf (predicted update_raises two_tracks ! 0))
     (measured_centroid (det_bbox (left_only ! 0)))
     = Raised (tr_kf (predicted update_raises two_tracks ! 0)) \<and>
   UpdateFailed 1 \<in> set (snd (snd (snd (processed update_raises two_tracks left_only)))) \<and>
   visible (fst (processed update_raises two_tracks left_only) ! 0) = (1, (0, 0, 10, 10), 0, 1) \<and>
   0 \<in> fst (snd (processed update_raises two_tracks left_only))"
proof -
  obtain trs2 mdi mti lg
    where e1: "processed predict_raises two_tracks left_only = (trs2, mdi, mti, lg)"
    by (metis prod_cases4)
  obtain trs2' mdi' mti' lg'
    where e2: "processed update_raises two_tracks left_only = (trs2', mdi', mti', lg')"
    by (metis prod_cases4)
  have len: "0 < length (tracks two_tracks)" by (simp add: two_tracks_def)
  have id0: "tr_id (tracks two_tracks ! 0) = 1" by (simp add: two_tracks_def Track_def)
  have v0: "visible (tracks two_tracks ! 0) = (1, (0, 0, 10, 10), 0, 1)"
    by (simp add: two_tracks_def Track_def visible_def)
  have r1: "kf_predict predict_raises (tr_kf (tracks two_tracks ! 0)) =
              Raised (tr_kf (tracks two_tracks ! 0))"
    by (simp add: predict_raises_def)
  have p2: "pairing update_raises two_tracks left_only ! 0 = Some 0"
    by (simp add: pairing_eval filterpy_eval failing_eval example_eval left_only_def Track_def
        measured_centroid_def)
  have r2: "kf_update update_raises (tr_kf (predicted update_raises two_tracks ! 0))
              (measured_centroid (det_bbox (left_only ! 0)))
            = Raised (tr_kf (predicted update_raises two_tracks ! 0))"
    by (simp add: update_raises_def)
  from filter_failure_contained [OF e1 len] r1
  have a: "PredictFailed 1 \<in> set lg" unfolding id0 by blast
  from filter_failure_contained [OF e2 len] p2 r2
  have b: "UpdateFailed 1 \<in> set lg' \<and> visible (trs2' ! 0) = (1, (0, 0, 10, 10), 0, 1) \<and>
           0 \<in> mdi'"
    unfolding id0 v0 by blast
  show ?thesis using len r1 p2 r2 a b by (simp add: e1 e2)
qed

section \<open>Malformed detections\<close>

text \<open>
  C8, as stated, fails: the tracker validates nothing. A detection with reversed
  corners and confidence 1.5 spawns a track on a fresh tracker, and next to an existing
  track it is matched to that track, whose box it replaces.
\<close>

theorem malformed_detection_counterexample:
  "\<not> well_formed malformed \<and>
   map tr_bbox (tracks (fst (snd (update filterpy 1 (snd (PeopleTracker 60 10)) [malformed])))) =
     [(12, 10, 2, 0)] \<and>
   fst (snd (processed filterpy two_tracks [malformed])) = {0} \<and>
   map tr_bbox (tracks (fst (snd (update filterpy 3 two_tracks [malformed])))) =
     [(12, 10, 2, 0), (20, 0, 30, 10)]"
proof -
  have "\<not> well_formed malformed"
    by (simp add: well_formed_def malformed_def person_def)
  moreover have "map tr_bbox (tracks (fst (snd (update filterpy 1 (snd (PeopleTracker 60 10))
      [malformed])))) = [(12, 10, 2, 0)]"
    by (simp add: frame_eval filterpy_eval example_eval malformed_def)
  moreover have "pairing filterpy two_tracks [malformed] = [Some 0, None]"
    by (simp add: pairing_eval filterpy_eval example_eval malformed_def Track_def
        measured_centroid_def)
  then have "fst (snd (processed filterpy two_tracks [malformed])) = {0}"
    unfolding processed_eq by simp
  moreover have "map tr_bbox (tracks (fst (snd (update filterpy 3 two_tracks [malformed])))) =
     [(12, 10, 2, 0), (20, 0, 30, 10)]"
    by (simp add: frame_eval filterpy_eval example_eval malformed_def)
  ultimately show ?thesis by simp
qed

text \<open>
  C8, amended: no detection is rejected. Every detection of a frame, malformed or
  well-formed, is processed in the same way: either its index is claimed, and then a
  track is paired with it and updated with its box, or a new track with its box,
  \<open>missed_frames = 0\<close> and \<open>hits = 1\<close> is created from it. The new tracks are created
  from the unclaimed detections, one each, in input order.
\<close>

theorem every_detection_processed:
  assumes "processed f s dets = (trs2, mdi, mti, lg)" and "di < length dets"
  shows "(di \<in> mdi \<longrightarrow>
            (\<exists>ti<length (tracks s). pairing f s dets ! ti = Some di \<and> ti \<in> mti \<and>
               trs2 ! ti = fst (track_update f (predicted f s ! ti) (det_bbox (dets ! di))))) \<and>
         (di \<notin> mdi \<longrightarrow>
            (\<exists>t\<in>set (created f c s dets).
               tr_bbox t = det_bbox (dets ! di) \<and> missed_frames t = 0 \<and> hits t = 1)) \<and>
         map tr_bbox (created f c s dets) = map det_bbox (unclaimed mdi dets)"
proof (intro conjI impI)
  assume "di \<in> mdi"
  then obtain ti where ti: "ti < length (tracks s)" "pairing f s dets ! ti = Some di"
    using processed_claimed [OF assms(1)] by blast
  note nth = processed_nth [OF assms(1) ti(1)]
  have "ti \<in> mti" using nth(2) ti(2) by simp
  moreover have "trs2 ! ti = fst (track_update f (predicted f s ! ti) (det_bbox (dets ! di)))"
    using nth(1) ti(2) by (simp add: apply_pairing_def)
  ultimately show "\<exists>ti<length (tracks s). pairing f s dets ! ti = Some di \<and> ti \<in> mti \<and>
               trs2 ! ti = fst (track_update f (predicted f s ! ti) (det_bbox (dets ! di)))"
    using ti by blast
next
  assume "di \<notin> mdi"
  then have "dets ! di \<in> set (unclaimed mdi dets)"
    using unclaimed_nth [OF assms(2)] by simp
  then obtain k where k: "k < length (unclaimed mdi dets)" "unclaimed mdi dets ! k = dets ! di"
    by (auto simp: in_set_conv_nth)
  let ?t = "created f c s dets ! k"
  have kl: "k < length (created f c s dets)"
    using k(1) created_fields(5) [OF assms(1)] by simp
  have "?t = Track f (det_bbox (dets ! di)) (c + int k)"
    unfolding created_eq [OF assms(1)] using k by (simp add: nth_enumerate_eq)
  then have "tr_bbox ?t = det_bbox (dets ! di) \<and> missed_frames ?t = 0 \<and> hits ?t = 1"
    by (simp add: Track_def)
  moreover have "?t \<in> set (created f c s dets)" using kl by simp
  ultimately show "\<exists>t\<in>set (created f c s dets).
               tr_bbox t = det_bbox (dets ! di) \<and> missed_frames t = 0 \<and> hits t = 1"
    by blast
next
  show "map tr_bbox (created f c s dets) = map det_bbox (unclaimed mdi dets)"
    by (rule created_fields(1) [OF assms(1)])
qed

theorem every_detection_processed_witness:
  "\<not> well_formed (mixed ! 0) \<and> well_formed (mixed ! 1) \<and>
   0 \<in> fst (snd (processed filterpy two_tracks mixed)) \<and>
   1 \<notin> fst (snd (processed filterpy two_tracks mixed)) \<and>
   (\<exists>ti<length (tracks two_tracks). pairing filterpy two_tracks mixed ! ti = Some 0) \<and>
   (\<exists>t\<in>set (created filterpy 3 two_tracks mixed). tr_bbox t = (200, 200, 210, 210)) \<and>
   map tr_bbox (created filterpy 3 two_tracks mixed) = [(200, 200, 210, 210)]"
proof -
  obtain trs2 mdi mti lg where e: "processed filterpy two_tracks mixed = (trs2, mdi, mti, lg)"
    by (metis prod_cases4)
  have p: "pairing filterpy two_tracks mixed = [Some 0, None]"
    by (simp add: pairing_eval filterpy_eval example_eval malformed_def mixed_def Track_def
        measured_centroid_def)
  have "mdi = claimed_by (pairing filterpy two_tracks mixed)"
    using e by (auto simp: processed_eq)
  then have mdi: "mdi = {0}" unfolding p by simp
  have l0: "0 < length mixed" and l1: "1 < length mixed" by (simp_all add: mixed_def)
  have wf: "\<not> well_formed (mixed ! 0)" "well_formed (mixed ! 1)"
    by (simp_all add: mixed_def malformed_def person_def well_formed_def)
  have b1: "det_bbox (mixed ! 1) = (200, 200, 210, 210)"
    by (simp add: mixed_def person_def)
  from every_detection_processed [OF e l0, of 3] mdi
  have a: "\<exists>ti<length (tracks two_tracks). pairing filterpy two_tracks mixed ! ti = Some 0"
    by blast
  from every_detection_processed [OF e l1, of 3] mdi
  have b: "\<exists>t\<in>set (created filterpy 3 two_tracks mixed). tr_bbox t = (200, 200, 210, 210)"
    unfolding b1 by auto
  from every_detection_processed [OF e l1, of 3]
  have "map tr_bbox (created filterpy 3 two_tracks mixed) = map det_bbox (unclaimed mdi mixed)"
    by blast
  then have c: "map tr_bbox (created filterpy 3 two_tracks mixed) = [(200, 200, 210, 210)]"
    unfolding mdi by (simp add: unclaimed_def mixed_def person_def enumerate_eq_zip)
  show ?thesis using wf mdi a b c by (simp add: e)
qed

section \<open>Confidences\<close>

lemma find_snoc:
  "find P (xs @ [x]) = (case find P xs of None \<Rightarrow> if P x then Some x else None | Some y \<Rightarrow> Some y)"
  by (induction xs) simp_all

text \<open>
  What the scan of step 6 computes: a record gets the confidence of the last detection
  of the frame whose box equals the box of the record, and none if there is no such
  detection.
\<close>

lemma attach_conf_last_equal_bbox:
  "map res_conf (attach_conf dets rs) =
     map (\<lambda>r. case find (\<lambda>d. det_bbox d = res_bbox r) (rev dets) of
                 None \<Rightarrow> res_conf r | Some d \<Rightarrow> det_conf d) rs"
proof (induction dets arbitrary: rs)
  case Nil
  then show ?case by simp
next
  case (Cons d ds)
  show ?case
    unfolding attach_conf.simps Cons.IH
    by (auto simp: attach_one_def find_snoc split: option.splits)
qed

text \<open>
  C2 does not hold of the code. In the frame \<open>right_only\<close> the first track claims the
  only detection and the second track is left unmatched, with one missed frame; yet
  the record of the second track carries the confidence of that detection, because
  its last observed box equals the box of the detection.
\<close>

theorem stale_track_reports_confidence:
  "pairing filterpy two_tracks right_only = [Some 0, None] \<and>
   fst (snd (snd (processed filterpy two_tracks right_only))) = {0} \<and>
   length (created filterpy 3 two_tracks right_only) = 0 \<and>
   map visible (tracks (fst (snd (update filterpy 3 two_tracks right_only)))) =
     [(1, (20, 0, 30, 10), 0, 2), (2, (20, 0, 30, 10), 1, 1)] \<and>
   fst (snd (snd (update filterpy 3 two_tracks right_only))) =
     [\<lparr>res_id = 1, res_bbox = (20, 0, 30, 10), res_conf = Some (8 / 10), res_class = ''person''\<rparr>,
      \<lparr>res_id = 2, res_bbox = (20, 0, 30, 10), res_conf = Some (8 / 10), res_class = ''person''\<rparr>]"
proof -
  have p: "pairing filterpy two_tracks right_only = [Some 0, None]"
    by (simp add: pairing_eval filterpy_eval example_eval right_only_def Track_def
        measured_centroid_def)
  then have "fst (snd (snd (processed filterpy two_tracks right_only))) = {0}"
    unfolding processed_eq by simp
  moreover have "length (created filterpy 3 two_tracks right_only) = 0"
    unfolding created_def processed_eq p by (simp add: right_only_def enumerate_eq_zip)
  moreover have "map visible (tracks (fst (snd (update filterpy 3 two_tracks right_only)))) =
     [(1, (20, 0, 30, 10), 0, 2), (2, (20, 0, 30, 10), 1, 1)]"
    by (simp add: frame_eval filterpy_eval example_eval right_only_def visible_def)
  moreover have "fst (snd (snd (update filterpy 3 two_tracks right_only))) =
     [\<lparr>res_id = 1, res_bbox = (20, 0, 30, 10), res_conf = Some (8 / 10), res_class = ''person''\<rparr>,
      \<lparr>res_id = 2, res_bbox = (20, 0, 30, 10), res_conf = Some (8 / 10), res_class = ''person''\<rparr>]"
    by (simp add: frame_eval filterpy_eval example_eval right_only_def)
  ultimately show ?thesis using p by simp
qed

section \<open>Track ids\<close>

lemma processed_ids:
  assumes "processed f s dets = (trs2, mdi, mti, lg)"
  shows "map tr_id trs2 = map tr_id (tracks s)"
proof (rule nth_equalityI)
  show "length (map tr_id trs2) = length (map tr_id (tracks s))"
    using assms by (auto simp: processed_eq)
next
  fix i assume "i < length (map tr_id trs2)"
  then have i: "i < length (tracks s)" using assms by (auto simp: processed_eq)
  note nth = processed_nth [OF assms i]
  show "map tr_id trs2 ! i = map tr_id (tracks s) ! i"
    using i nth(1,3) predicted_fields(1) [OF i, of f] by simp
qed

lemma sorted_wrt_upto_from: "sorted_wrt (<) (map (\<lambda>k. c + int k) [0..<n])"
  by (simp add: sorted_wrt_map sorted_wrt_iff_nth_less)

lemma sorted_ids_filter:
  assumes "sorted_wrt (<) (map g xs)"
  shows "sorted_wrt (<) (map g (filter P xs))"
  using assms unfolding sorted_wrt_map by (rule sorted_wrt_filter)

lemma update_ids:
  assumes u: "update f c s dets = (c', s', results, lg)" and c: "1 \<le> c" and ok: "ids_ok c s"
  shows "c' = c + int (length (created f c s dets))"
    and "map tr_id (created f c s dets) = map (\<lambda>k. c + int k) [0..<length (created f c s dets)]"
    and "ids_ok c' s'"
    and "set (map tr_id (tracks s')) \<subseteq> set (map tr_id (tracks s)) \<union> set (map tr_id (created f c s dets))"
proof -
  obtain trs2 mdi mti lg2 where p: "processed f s dets = (trs2, mdi, mti, lg2)"
    by (metis prod_cases4)
  note t = update_tracks [OF u p]
  let ?new = "created f c s dets"
  show c': "c' = c + int (length ?new)" by (rule t(2))
  show ids: "map tr_id ?new = map (\<lambda>k. c + int k) [0..<length ?new]"
    using created_fields(2,5) [OF p, of c] by simp
  have old: "map tr_id trs2 = map tr_id (tracks s)" by (rule processed_ids [OF p])
  have all: "map tr_id (trs2 @ ?new) = map tr_id (tracks s) @ map (\<lambda>k. c + int k) [0..<length ?new]"
    using old ids by simp
  have srt: "sorted_wrt (<) (map tr_id (trs2 @ ?new))"
    unfolding all sorted_wrt_append
    using ok sorted_wrt_upto_from [of c "length ?new"] by (fastforce simp: ids_ok_def)
  have "sorted_wrt (<) (map tr_id (tracks s'))"
    unfolding t(1) prune_def using srt by (rule sorted_ids_filter)
  moreover have "\<forall>t\<in>set (tracks s'). 1 \<le> tr_id t \<and> tr_id t < c'"
  proof
    fix x assume "x \<in> set (tracks s')"
    then have "x \<in> set (trs2 @ ?new)" unfolding t(1) prune_def by auto
    then have "tr_id x \<in> set (map tr_id (trs2 @ ?new))" unfolding set_map by (rule imageI)
    then have "tr_id x \<in> set (map tr_id (tracks s)) \<or>
               tr_id x \<in> set (map (\<lambda>k. c + int k) [0..<length ?new])"
      unfolding all by simp
    then show "1 \<le> tr_id x \<and> tr_id x < c'"
      using ok c unfolding c' by (auto simp: ids_ok_def)
  qed
  ultimately show "ids_ok c' s'" by (simp add: ids_ok_def)
  show "set (map tr_id (tracks s')) \<subseteq> set (map tr_id (tracks s)) \<union> set (map tr_id ?new)"
  proof
    fix i assume "i \<in> set (map tr_id (tracks s'))"
    then obtain x where x: "x \<in> set (tracks s')" "i = tr_id x" by auto
    then have "x \<in> set (trs2 @ ?new)" unfolding t(1) prune_def by auto
    then have "tr_id x \<in> set (map tr_id (trs2 @ ?new))" unfolding set_map by (rule imageI)
    then show "i \<in> set (map tr_id (tracks s)) \<union> set (map tr_id ?new)"
      unfolding x(2) map_append old by simp
  qed
qed

lemma ids_ok_mono: "ids_ok c s \<Longrightarrow> c \<le> c' \<Longrightarrow> ids_ok c' s"
  by (fastforce simp: ids_ok_def)

lemma update_counter:
  assumes "update f c s dets = (c', s', results, lg)"
  shows "c \<le> c'"
proof -
  obtain trs2 mdi mti lg2 where p: "processed f s dets = (trs2, mdi, mti, lg2)"
    by (metis prod_cases4)
  show ?thesis using update_tracks(2) [OF assms p] by simp
qed

lemma step_update:
  assumes st: "step f w (Update j dets) = (w1, ids)"
    and i: "i < length (instances w)" and c: "1 \<le> TRACK_ID w"
    and ok: "ids_ok (TRACK_ID w) (instances w ! i)"
  shows "TRACK_ID w \<le> TRACK_ID w1"
    and "length (instances w1) = length (instances w)"
    and "ids_ok (TRACK_ID w1) (instances w1 ! i)"
    and "j = i \<Longrightarrow> sorted_wrt (<) ids"
    and "j = i \<Longrightarrow> \<forall>x\<in>set ids. TRACK_ID w \<le> x \<and> x < TRACK_ID w1"
    and "j = i \<Longrightarrow> set (map tr_id (tracks (instances w1 ! i)))
           \<subseteq> set (map tr_id (tracks (instances w ! i))) \<union> set ids"
    and "j \<noteq> i \<Longrightarrow> instances w1 ! i = instances w ! i"
proof -
  show "TRACK_ID w \<le> TRACK_ID w1"
  proof (cases "j < length (instances w)")
    case True
    obtain c' t results lg
      where u: "update f (TRACK_ID w) (instances w ! j) dets = (c', t, results, lg)"
      by (metis prod_cases4)
    with st True have "TRACK_ID w1 = c'" by auto
    with update_counter [OF u] show ?thesis by simp
  next
    case False
    with st show ?thesis by simp
  qed
  then show "ids_ok (TRACK_ID w1) (instances w1 ! i)"
  proof (cases "j = i")
    case True
    obtain c' t results lg
      where u: "update f (TRACK_ID w) (instances w ! i) dets = (c', t, results, lg)"
      by (metis prod_cases4)
    with st i True have "TRACK_ID w1 = c'" "instances w1 ! i = t" by auto
    with update_ids(3) [OF u c ok] show ?thesis by simp
  next
    case False
    have "instances w1 ! i = instances w ! i"
      using st False by (auto split: if_splits prod.splits)
    with ok \<open>TRACK_ID w \<le> TRACK_ID w1\<close> show ?thesis by (simp add: ids_ok_mono)
  qed
  show "length (instances w1) = length (instances w)"
    using st by (auto split: if_splits prod.splits)
  show "instances w1 ! i = instances w ! i" if "j \<noteq> i"
    using st that by (auto split: if_splits prod.splits)
  {
    assume ji: "j = i"
    obtain c' t results lg
      where u: "update f (TRACK_ID w) (instances w ! i) dets = (c', t, results, lg)"
      by (metis prod_cases4)
    with st i ji have w1: "TRACK_ID w1 = c'" "instances w1 ! i = t"
      and ids: "ids = map tr_id (created f (TRACK_ID w) (instances w ! i) dets)" by auto
    note ui = update_ids [OF u c ok]
    show "sorted_wrt (<) ids"
      unfolding ids ui(2) by (rule sorted_wrt_upto_from)
    show "\<forall>x\<in>set ids. TRACK_ID w \<le> x \<and> x < TRACK_ID w1"
      unfolding ids ui(2) w1 ui(1) by auto
    show "set (map tr_id (tracks (instances w1 ! i)))
           \<subseteq> set (map tr_id (tracks (instances w ! i))) \<union> set ids"
      unfolding w1 ids by (rule ui(4))
  }
qed

lemma is_Update_cases:
  assumes "is_Update e"
  obtains j dets where "e = Update j dets"
  using assms by (cases e) simp_all

lemma run_updates_ids:
  assumes "run f w evs = (w', history)" and "\<forall>e\<in>set evs. is_Update e"
    and "i < length (instances w)" and "1 \<le> TRACK_ID w"
    and "ids_ok (TRACK_ID w) (instances w ! i)"
  shows "TRACK_ID w \<le> TRACK_ID w' \<and>
         ids_ok (TRACK_ID w') (instances w' ! i) \<and>
         sorted_wrt (<) (assigned_to i history) \<and>
         (\<forall>x\<in>set (assigned_to i history). TRACK_ID w \<le> x \<and> x < TRACK_ID w') \<and>
         set (map tr_id (tracks (instances w' ! i)))
           \<subseteq> set (map tr_id (tracks (instances w ! i))) \<union> set (assigned_to i history)"
  using assms
proof (induction evs arbitrary: w w' history)
  case Nil
  then show ?case by simp
next
  case (Cons e evs)
  from Cons.prems(2) obtain j dets where e: "e = Update j dets"
    by (auto elim: is_Update_cases)
  obtain w1 ids where st: "step f w (Update j dets) = (w1, ids)" by (cases "step f w (Update j dets)")
  obtain w2 h2 where r: "run f w1 evs = (w2, h2)" by (cases "run f w1 evs")
  from Cons.prems(1) have w': "w' = w2" and h: "history = (Update j dets, ids) # h2"
    unfolding e using st r by simp_all
  note s1 = step_update [OF st Cons.prems(3,4,5)]
  have i1: "i < length (instances w1)" using s1(2) Cons.prems(3) by simp
  have c1: "1 \<le> TRACK_ID w1" using s1(1) Cons.prems(4) by simp
  have all: "\<forall>e\<in>set evs. is_Update e" using Cons.prems(2) by simp
  note ih = Cons.IH [OF r all i1 c1 s1(3)]
  show ?case
  proof (cases "j = i")
    case True
    have a: "assigned_to i history = ids @ assigned_to i h2" unfolding h using True by simp
    have "sorted_wrt (<) (assigned_to i history)"
      unfolding a sorted_wrt_append using s1(4,5) [OF True] ih by fastforce
    moreover have "\<forall>x\<in>set (assigned_to i history). TRACK_ID w \<le> x \<and> x < TRACK_ID w'"
      unfolding a w' using s1(1) s1(5) [OF True] ih by fastforce
    moreover have "set (map tr_id (tracks (instances w' ! i)))
           \<subseteq> set (map tr_id (tracks (instances w ! i))) \<union> set (assigned_to i history)"
    proof -
      have "set (map tr_id (tracks (instances w2 ! i)))
              \<subseteq> set (map tr_id (tracks (instances w1 ! i))) \<union> set (assigned_to i h2)"
        using ih by blast
      with s1(6) [OF True] show ?thesis unfolding a w' set_append by blast
    qed
    ultimately show ?thesis using ih s1(1) unfolding w' by simp
  next
    case False
    have a: "assigned_to i history = assigned_to i h2" unfolding h using False by simp
    show ?thesis
      unfolding a w' using ih s1(1) s1(7) [OF False] by fastforce
  qed
qed

text \<open>
  C3, as stated, fails: \<open>_TRACK_ID\<close> is a global of the module and every constructor
  resets it to 1. After a second tracker is constructed, the first tracker, which
  still holds track 1, gives the id 1 to its next new track.
\<close>

theorem reconstruction_counterexample:
  "assigned_to 0 (snd (run filterpy module_loaded reconstruction)) = [1, 1] \<and>
   map tr_id (tracks (instances (fst (run filterpy module_loaded reconstruction)) ! 0)) = [1, 1]"
  by (simp add: reconstruction_def module_loaded_def frame_eval filterpy_eval example_eval)

text \<open>
  C3, amended: from the construction of an instance on, as long as no further
  \<open>PeopleTracker\<close> is constructed, and whatever update calls are made on this and on
  other instances, the ids given to the new tracks of the instance are positive and
  strictly increasing in the order of their assignment, so none is given twice; the
  tracks the instance holds carry ids that were so assigned, strictly increasing along
  the list.
\<close>

theorem ids_increase_without_reconstruction:
  assumes "run f w (Construct md mm # ups) = (w', history)" and "\<forall>e\<in>set ups. is_Update e"
  shows "sorted_wrt (<) (assigned_to (length (instances w)) history) \<and>
     (\<forall>x\<in>set (assigned_to (length (instances w)) history). 1 \<le> x \<and> x < TRACK_ID w') \<and>
     sorted_wrt (<) (map tr_id (tracks (instances w' ! length (instances w)))) \<and>
     set (map tr_id (tracks (instances w' ! length (instances w))))
       \<subseteq> set (assigned_to (length (instances w)) history)"
proof -
  let ?i = "length (instances w)"
  let ?w1 = "\<lparr>TRACK_ID = 1, instances = instances w @ [\<lparr>tracks = [], max_distance = md,
               max_missed = mm\<rparr>]\<rparr> :: 'a world"
  have st: "step f w (Construct md mm) = (?w1, [])" by (simp add: PeopleTracker_def)
  obtain w2 h2 where r: "run f ?w1 ups = (w2, h2)" by (cases "run f ?w1 ups")
  from assms(1) have w': "w' = w2" and h: "history = (Construct md mm, []) # h2"
    using st r by simp_all
  have i: "?i < length (instances ?w1)" by simp
  have c: "1 \<le> TRACK_ID ?w1" by simp
  have ok: "ids_ok (TRACK_ID ?w1) (instances ?w1 ! ?i)" by (simp add: ids_ok_def)
  have t0: "tracks (instances ?w1 ! ?i) = []" by simp
  from run_updates_ids [OF r assms(2) i c ok]
  show ?thesis unfolding w' h t0 by (simp add: ids_ok_def)
qed

theorem ids_increase_without_reconstruction_witness:
  "length (instances one_instance) = 1 \<and>
   is_Update (Update 1 frame1) \<and> is_Update (Update 0 frame1) \<and> is_Update (Update 1 frame2) \<and>
   assigned_to 1 (snd (run filterpy one_instance lifetime)) = [1, 2, 5] \<and>
   assigned_to 0 (snd (run filterpy one_instance lifetime)) = [3, 4] \<and>
   sorted_wrt (<) (assigned_to 1 (snd (run filterpy one_instance lifetime))) \<and>
   map tr_id (tracks (instances (fst (run filterpy one_instance lifetime)) ! 1)) = [1, 2, 5]"
proof -
  obtain w' history where e: "run filterpy one_instance lifetime = (w', history)"
    by (cases "run filterpy one_instance lifetime")
  have e': "run filterpy one_instance
              (Construct 60 10 # [Update 1 frame1, Update 0 frame1, Update 1 frame2]) =
            (w', history)"
    using e by (simp only: lifetime_def)
  have ups: "\<forall>ev\<in>set [Update 1 frame1, Update 0 frame1, Update 1 frame2]. is_Update ev"
    by simp
  have len: "length (instances one_instance) = 1" by (simp add: one_instance_def)
  from ids_increase_without_reconstruction [OF e' ups]
  have s: "sorted_wrt (<) (assigned_to 1 history)" unfolding len by blast
  have a: "assigned_to 1 (snd (run filterpy one_instance lifetime)) = [1, 2, 5]"
    by (simp add: lifetime_def one_instance_def PeopleTracker_def frame_eval filterpy_eval
        example_eval)
  have b: "assigned_to 0 (snd (run filterpy one_instance lifetime)) = [3, 4]"
    by (simp add: lifetime_def one_instance_def PeopleTracker_def frame_eval filterpy_eval
        example_eval)
  have c: "map tr_id (tracks (instances (fst (run filterpy one_instance lifetime)) ! 1)) =
             [1, 2, 5]"
    by (simp add: lifetime_def one_instance_def PeopleTracker_def frame_eval filterpy_eval
        example_eval)
  show ?thesis using len s a b c by (simp add: e)
qed

section \<open>Centroids\<close>

text \<open>
  C9, as stated, fails: the detector's floor division rounds a negative odd sum away
  from zero, and the centroid a track's filter is initialised and updated with is the
  exact midpoint, not an integer.
\<close>

theorem centroid_counterexample:
  "box_center (-3, 0, 0, 10) \<noteq> midpoint_toward_zero (-3, 0, 0, 10) \<and>
   measured_centroid (0, 0, 5, 10) \<noteq> center_point (midpoint_toward_zero (0, 0, 5, 10)) \<and>
   kf_x filterpy (tr_kf (Track filterpy (0, 0, 5, 10) 1))
     \<noteq> center_point (midpoint_toward_zero (0, 0, 5, 10))"
  by (simp add: box_center_def midpoint_toward_zero_def half_toward_zero_def
      measured_centroid_def center_point_def Track_def filterpy_eval)

lemma floor_half: "\<lfloor>real_of_int n / 2\<rfloor> = n div 2"
  using floor_divide_of_int_eq [of n 2, where ?'a = real] by simp

lemma created_filters:
  assumes "processed f s dets = (trs2, mdi, mti, lg)"
  shows "map tr_kf (created f c s dets) =
           map (\<lambda>det. kf_init f (measured_centroid (det_bbox det))) (unclaimed mdi dets)"
  unfolding created_eq [OF assms]
  by (rule nth_equalityI) (simp_all add: Track_def nth_enumerate_eq)

lemma track_update_filter:
  "tr_kf (fst (track_update f tr b)) =
     (case kf_update f (tr_kf tr) (measured_centroid b) of Returned k \<Rightarrow> k | Raised k \<Rightarrow> k)"
  by (simp add: track_update_def split: outcome.splits)

text \<open>
  C9, amended: the centroid the detector supplies is the floor of the exact midpoint,
  coordinate by coordinate; it is the midpoint rounded toward zero whenever both
  coordinate sums are non-negative. The centroid fed to the filter is the exact
  midpoint: \<open>Track.__init__\<close> initialises the filter with it and \<open>Track.update\<close>
  passes it to the measurement update. In a frame, every matched track is measured
  with the exact midpoint of the box of its detection, and the filter of every new
  track starts at the exact midpoint of the box of the detection it is created from.
\<close>

theorem centroid_floor_midpoint:
  "box_center (x1, y1, x2, y2) = (\<lfloor>real_of_int (x1 + x2) / 2\<rfloor>, \<lfloor>real_of_int (y1 + y2) / 2\<rfloor>) \<and>
   (0 \<le> x1 + x2 \<and> 0 \<le> y1 + y2 \<longrightarrow>
      box_center (x1, y1, x2, y2) = midpoint_toward_zero (x1, y1, x2, y2)) \<and>
   det_center (parse_box box) = box_center (det_bbox (parse_box box)) \<and>
   measured_centroid (x1, y1, x2, y2) = (real_of_int (x1 + x2) / 2, real_of_int (y1 + y2) / 2) \<and>
   Track f (x1, y1, x2, y2) track_id =
     \<lparr>tr_id = track_id,
      tr_kf = kf_init f (real_of_int (x1 + x2) / 2, real_of_int (y1 + y2) / 2),
      tr_bbox = (x1, y1, x2, y2), missed_frames = 0, hits = 1\<rparr> \<and>
   track_update f tr (x1, y1, x2, y2) =
     (case kf_update f (tr_kf tr) (real_of_int (x1 + x2) / 2, real_of_int (y1 + y2) / 2) of
        Returned k \<Rightarrow>
          (tr\<lparr>tr_kf := k, tr_bbox := (x1, y1, x2, y2), missed_frames := 0,
              hits := hits tr + 1\<rparr>, [])
      | Raised k \<Rightarrow> (tr\<lparr>tr_kf := k\<rparr>, [UpdateFailed (tr_id tr)])) \<and>
   (processed f s dets = (trs2, mdi, mti, lg) \<longrightarrow>
      (\<forall>ti<length (tracks s). \<forall>di. pairing f s dets ! ti = Some di \<longrightarrow>
         tr_kf (trs2 ! ti) =
           (case kf_update f (tr_kf (predicted f s ! ti))
                   (measured_centroid (det_bbox (dets ! di))) of
              Returned k \<Rightarrow> k | Raised k \<Rightarrow> k)) \<and>
      map tr_kf (created f c s dets) =
        map (\<lambda>det. kf_init f (measured_centroid (det_bbox det))) (unclaimed mdi dets))"
proof (intro conjI impI allI)
  show "box_center (x1, y1, x2, y2) =
          (\<lfloor>real_of_int (x1 + x2) / 2\<rfloor>, \<lfloor>real_of_int (y1 + y2) / 2\<rfloor>)"
    unfolding floor_half by (simp add: box_center_def)
  show "box_center (x1, y1, x2, y2) = midpoint_toward_zero (x1, y1, x2, y2)"
    if "0 \<le> x1 + x2 \<and> 0 \<le> y1 + y2"
    using that by (simp add: box_center_def midpoint_toward_zero_def half_toward_zero_def)
  show "det_center (parse_box box) = box_center (det_bbox (parse_box box))"
    by (simp add: parse_box_def Let_def split: prod.splits)
  show "measured_centroid (x1, y1, x2, y2) =
          (real_of_int (x1 + x2) / 2, real_of_int (y1 + y2) / 2)"
    by (simp add: measured_centroid_def)
  show "Track f (x1, y1, x2, y2) track_id =
     \<lparr>tr_id = track_id,
      tr_kf = kf_init f (real_of_int (x1 + x2) / 2, real_of_int (y1 + y2) / 2),
      tr_bbox = (x1, y1, x2, y2), missed_frames = 0, hits = 1\<rparr>"
    by (simp add: Track_def measured_centroid_def)
  show "track_update f tr (x1, y1, x2, y2) =
     (case kf_update f (tr_kf tr) (real_of_int (x1 + x2) / 2, real_of_int (y1 + y2) / 2) of
        Returned k \<Rightarrow>
          (tr\<lparr>tr_kf := k, tr_bbox := (x1, y1, x2, y2), missed_frames := 0,
              hits := hits tr + 1\<rparr>, [])
      | Raised k \<Rightarrow> (tr\<lparr>tr_kf := k\<rparr>, [UpdateFailed (tr_id tr)]))"
    by (simp add: track_update_def measured_centroid_def)
next
  fix ti di
  assume p: "processed f s dets = (trs2, mdi, mti, lg)"
    and ti: "ti < length (tracks s)" and m: "pairing f s dets ! ti = Some di"
  have "trs2 ! ti = fst (track_update f (predicted f s ! ti) (det_bbox (dets ! di)))"
    using processed_nth(1) [OF p ti] m by (simp add: apply_pairing_def)
  then show "tr_kf (trs2 ! ti) =
           (case kf_update f (tr_kf (predicted f s ! ti))
                   (measured_centroid (det_bbox (dets ! di))) of
              Returned k \<Rightarrow> k | Raised k \<Rightarrow> k)"
    by (simp add: track_update_filter)
next
  assume p: "processed f s dets = (trs2, mdi, mti, lg)"
  show "map tr_kf (created f c s dets) =
        map (\<lambda>det. kf_init f (measured_centroid (det_bbox det))) (unclaimed mdi dets)"
    by (rule created_filters [OF p])
qed

theorem centroid_floor_midpoint_witness:
  "(0::int) \<le> 1 + 12 \<and> (0::int) \<le> 0 + 10 \<and>
   box_center (1, 0, 12, 10) = (6, 5) \<and> midpoint_toward_zero (1, 0, 12, 10) = (6, 5) \<and>
   det_center (odd_box ! 0) = (6, 5) \<and>
   tr_kf (Track filterpy (1, 0, 12, 10) 1) = kalman_init (13 / 2, 5) \<and>
   0 < length (tracks two_tracks) \<and> pairing filterpy two_tracks odd_box ! 0 = Some 0 \<and>
   kf_x filterpy (tr_kf (fst (processed filterpy two_tracks odd_box) ! 0)) = (265013 / 41002, 5) \<and>
   map tr_kf (created filterpy 1 (snd (PeopleTracker 60 10)) odd_box) = [kalman_init (13 / 2, 5)]"
proof -
  obtain trs2 mdi mti lg where e: "processed filterpy two_tracks odd_box = (trs2, mdi, mti, lg)"
    by (metis prod_cases4)
  obtain trs2' mdi' mti' lg'
    where e': "processed filterpy (snd (PeopleTracker 60 10)) odd_box = (trs2', mdi', mti', lg')"
    by (metis prod_cases4)
  note g = centroid_floor_midpoint [where ?x1.0 = 1 and ?y1.0 = 0 and ?x2.0 = 12 and ?y2.0 = 10
      and f = filterpy and track_id = 1 and s = two_tracks and dets = odd_box
      and ?trs2.0 = trs2 and mdi = mdi and mti = mti and lg = lg]
  note g' = centroid_floor_midpoint [where f = filterpy and s = "snd (PeopleTracker 60 10)"
      and dets = odd_box and ?trs2.0 = trs2' and mdi = mdi' and mti = mti' and lg = lg'
      and c = 1]
  have nn: "(0::int) \<le> 1 + 12" "(0::int) \<le> 0 + 10" by simp_all
  from g nn have a: "box_center (1, 0, 12, 10) = midpoint_toward_zero (1, 0, 12, 10)" by blast
  have b: "box_center (1, 0, 12, 10) = (6, 5)" by (simp add: box_center_def)
  have dc: "det_center (odd_box ! 0) = (6, 5)"
    by (simp add: odd_box_def person_def box_center_def)
  from g have "tr_kf (Track filterpy (1, 0, 12, 10) 1) =
      kf_init filterpy (real_of_int (1 + 12) / 2, real_of_int (0 + 10) / 2)"
    by simp
  then have t: "tr_kf (Track filterpy (1, 0, 12, 10) 1) = kalman_init (13 / 2, 5)"
    by (simp add: filterpy_def)
  have len: "0 < length (tracks two_tracks)" by (simp add: two_tracks_def)
  have p: "pairing filterpy two_tracks odd_box ! 0 = Some 0"
    by (simp add: pairing_eval filterpy_eval example_eval odd_box_def Track_def
        measured_centroid_def)
  from g e len p have "tr_kf (trs2 ! 0) =
      (case kf_update filterpy (tr_kf (predicted filterpy two_tracks ! 0))
              (measured_centroid (det_bbox (odd_box ! 0))) of
         Returned k \<Rightarrow> k | Raised k \<Rightarrow> k)"
    by blast
  then have u: "kf_x filterpy (tr_kf (trs2 ! 0)) = (265013 / 41002, 5)"
    by (simp add: predicted_eq track_predict_def two_tracks_def Track_def measured_centroid_def
        odd_box_def person_def filterpy_eval)
  have "mdi' = {}" using e' by (auto simp: processed_eq pairing_def predicted_eq PeopleTracker_def)
  moreover from g' e' have "map tr_kf (created filterpy 1 (snd (PeopleTracker 60 10)) odd_box) =
      map (\<lambda>det. kf_init filterpy (measured_centroid (det_bbox det))) (unclaimed mdi' odd_box)"
    by blast
  ultimately have n: "map tr_kf (created filterpy 1 (snd (PeopleTracker 60 10)) odd_box) =
      [kalman_init (13 / 2, 5)]"
    by (simp add: unclaimed_def odd_box_def person_def enumerate_eq_zip measured_centroid_def
        filterpy_def)
  show ?thesis using nn a b dc t len p u n by (simp add: e)
qed

end
